theory Spec2Isabelle
  imports
    Complex_Main
    "HOL-Library.AList"
    "HOL-Library.Char_ord"
    "HOL-Library.List_Lexorder"
    "HOL-Library.Product_Lexorder"
begin

section \<open>Text primitives\<close>

text \<open>
  A Python \<^verbatim>\<open>str\<close> is modelled as a \<^typ>\<open>string\<close> whose characters are the code points
  0 to 255. On that range the character classes below are the ones CPython uses:
  \<^verbatim>\<open>str.isspace\<close> (also the class \<^verbatim>\<open>\s\<close> of \<^verbatim>\<open>re\<close> and what \<^verbatim>\<open>str.strip\<close> removes),
  the decimal digits (\<^verbatim>\<open>\d\<close>), the word characters (\<^verbatim>\<open>\w\<close>, which decide \<^verbatim>\<open>\b\<close>) and
  \<^verbatim>\<open>str.lower\<close>. \<^verbatim>\<open>len\<close> counts code points, so it is \<^const>\<open>length\<close>.
\<close>

definition is_space :: "char \<Rightarrow> bool" where
  "is_space c \<longleftrightarrow>
     (let n = (of_char c :: nat)
      in (9 \<le> n \<and> n \<le> 13) \<or> (28 \<le> n \<and> n \<le> 32) \<or> n = 133 \<or> n = 160)"

definition is_digit :: "char \<Rightarrow> bool" where
  "is_digit c \<longleftrightarrow> (let n = (of_char c :: nat) in 48 \<le> n \<and> n \<le> 57)"

definition is_ascii_alpha :: "char \<Rightarrow> bool" where
  "is_ascii_alpha c \<longleftrightarrow>
     (let n = (of_char c :: nat) in (65 \<le> n \<and> n \<le> 90) \<or> (97 \<le> n \<and> n \<le> 122))"

definition is_lower_alnum :: "char \<Rightarrow> bool" where
  \<comment> \<open>the class \<^verbatim>\<open>[a-z0-9]\<close>\<close>
  "is_lower_alnum c \<longleftrightarrow>
     (let n = (of_char c :: nat) in (97 \<le> n \<and> n \<le> 122) \<or> (48 \<le> n \<and> n \<le> 57))"

definition is_word :: "char \<Rightarrow> bool" where
  \<comment> \<open>\<^verbatim>\<open>\w\<close> of a \<^verbatim>\<open>str\<close> pattern: alphanumeric (letters, digits, numeric characters) or underscore\<close>
  "is_word c \<longleftrightarrow>
     (let n = (of_char c :: nat)
      in (48 \<le> n \<and> n \<le> 57) \<or> (65 \<le> n \<and> n \<le> 90) \<or> n = 95 \<or> (97 \<le> n \<and> n \<le> 122)
         \<or> n = 170 \<or> n = 178 \<or> n = 179 \<or> n = 181 \<or> n = 185 \<or> n = 186
         \<or> (188 \<le> n \<and> n \<le> 190) \<or> (192 \<le> n \<and> n \<le> 214)
         \<or> (216 \<le> n \<and> n \<le> 246) \<or> 248 \<le> n)"

definition is_upper :: "char \<Rightarrow> bool" where
  "is_upper c \<longleftrightarrow>
     (let n = (of_char c :: nat)
      in (65 \<le> n \<and> n \<le> 90) \<or> (192 \<le> n \<and> n \<le> 222 \<and> n \<noteq> 215))"

fun set_bit5 :: "char \<Rightarrow> char" where
  "set_bit5 (Char b0 b1 b2 b3 b4 b5 b6 b7) = Char b0 b1 b2 b3 b4 True b6 b7"

definition lower_char :: "char \<Rightarrow> char" where
  \<comment> \<open>an upper-case letter has bit 5 clear; its lower-case form is 32 further on\<close>
  "lower_char c = (if is_upper c then set_bit5 c else c)"

definition lower :: "string \<Rightarrow> string" where
  "lower s = map lower_char s"

definition strip :: "string \<Rightarrow> string" where
  "strip s = rev (dropWhile is_space (rev (dropWhile is_space s)))"

fun startswith :: "string \<Rightarrow> string \<Rightarrow> bool" where
  \<comment> \<open>\<^verbatim>\<open>s.startswith(p)\<close>, the prefix first\<close>
  "startswith [] s = True"
| "startswith (p # ps) [] = False"
| "startswith (p # ps) (c # cs) = (p = c \<and> startswith ps cs)"

definition endswith :: "string \<Rightarrow> string \<Rightarrow> bool" where
  "endswith p s = startswith (rev p) (rev s)"

fun contains :: "string \<Rightarrow> string \<Rightarrow> bool" where
  \<comment> \<open>\<^verbatim>\<open>sub in s\<close>\<close>
  "contains sub [] = (sub = [])"
| "contains sub (c # cs) = (startswith sub (c # cs) \<or> contains sub cs)"

fun sub_runs :: "(char \<Rightarrow> bool) \<Rightarrow> bool \<Rightarrow> string \<Rightarrow> string" where
  \<comment> \<open>\<^verbatim>\<open>re.sub("[class]+", " ", s)\<close>: every maximal run of the class becomes one space;
      the flag says that the previous character was in the run\<close>
  "sub_runs P inrun [] = []"
| "sub_runs P inrun (c # cs) =
     (if P c then (if inrun then sub_runs P True cs else CHR '' '' # sub_runs P True cs)
      else c # sub_runs P False cs)"

definition normalize_whitespace :: "string \<Rightarrow> string" where
  "normalize_whitespace text = strip (sub_runs is_space False text)"

fun split_ws_from :: "string \<Rightarrow> string \<Rightarrow> string list" where
  \<comment> \<open>\<^verbatim>\<open>str.split()\<close>: the first argument is the token read so far, reversed\<close>
  "split_ws_from cur [] = (if cur = [] then [] else [rev cur])"
| "split_ws_from cur (c # cs) =
     (if is_space c then (if cur = [] then split_ws_from [] cs else rev cur # split_ws_from [] cs)
      else split_ws_from (c # cur) cs)"

definition split_ws :: "string \<Rightarrow> string list" where
  "split_ws s = split_ws_from [] s"

definition truthy :: "string option \<Rightarrow> bool" where
  \<comment> \<open>Python truth of an optional string: neither \<^verbatim>\<open>None\<close> nor empty\<close>
  "truthy v \<longleftrightarrow> (case v of None \<Rightarrow> False | Some s \<Rightarrow> s \<noteq> [])"

definition or_empty :: "string option \<Rightarrow> string" where
  \<comment> \<open>\<^verbatim>\<open>v or ""\<close>\<close>
  "or_empty v = (case v of None \<Rightarrow> [] | Some s \<Rightarrow> s)"

section \<open>Library functions taken as parameters\<close>

text \<open>
  The functions of the Python standard library that the collector calls and that rest on
  tables or algorithms outside the repository are parameters of the model:
  \<^item> \<open>unescape\<close>: \<^verbatim>\<open>html.unescape\<close>;
  \<^item> \<open>nfkd_ascii\<close>: \<^verbatim>\<open>unicodedata.normalize("NFKD", s).encode("ascii", "ignore").decode("ascii")\<close>;
  \<^item> \<open>unquote\<close>: \<^verbatim>\<open>urllib.parse.unquote\<close>;
  \<^item> \<open>casefold\<close>: \<^verbatim>\<open>str.casefold\<close>;
  \<^item> \<open>url_scheme\<close>: \<^verbatim>\<open>urllib.parse.urlparse(s).scheme\<close>;
  \<^item> \<open>sha1_hexdigest\<close>: \<^verbatim>\<open>hashlib.sha1(s.encode("utf-8", errors="ignore")).hexdigest()\<close>;
  \<^item> \<open>repr_list\<close>: \<^verbatim>\<open>str\<close> of a list of strings, as an f-string formats it.
\<close>

record pylib =
  unescape :: "string \<Rightarrow> string"
  nfkd_ascii :: "string \<Rightarrow> string"
  unquote :: "string \<Rightarrow> string"
  casefold :: "string \<Rightarrow> string"
  url_scheme :: "string \<Rightarrow> string"
  sha1_hexdigest :: "string \<Rightarrow> string"
  repr_list :: "string list \<Rightarrow> string"

definition is_plain :: "string \<Rightarrow> bool" where
  \<comment> \<open>ASCII text with no ampersand and no percent sign\<close>
  "is_plain s \<longleftrightarrow>
     list_all (\<lambda>c. (of_char c :: nat) < 128 \<and> c \<noteq> CHR ''&'' \<and> c \<noteq> CHR ''%'') s"

definition lib_plain :: "pylib \<Rightarrow> bool" where
  \<comment> \<open>what the library does on plain text: nothing to unescape, to decompose or to unquote\<close>
  "lib_plain L \<longleftrightarrow>
     (\<forall>s. is_plain s \<longrightarrow> unescape L s = s \<and> nfkd_ascii L s = s \<and> unquote L s = s)"

definition plain_scheme :: "string \<Rightarrow> string" where
  \<comment> \<open>the scheme of a URL that starts with it: the letters, digits and \<^verbatim>\<open>+-.\<close> before
      the first colon, lower-cased, or nothing\<close>
  "plain_scheme s =
     (let pre = takeWhile (\<lambda>c. c \<noteq> CHR '':'') s
      in if pre \<noteq> [] \<and> pre \<noteq> s \<and> is_ascii_alpha (hd pre)
            \<and> list_all (\<lambda>c. is_ascii_alpha c \<or> is_digit c \<or> c \<in> set ''+-.'') pre
         then lower pre else [])"

definition plain_lib :: pylib where
  \<comment> \<open>an instance that is the library on plain text; its digest and its list format are
      placeholders that no example evaluates\<close>
  "plain_lib = \<lparr> unescape = (\<lambda>s. s), nfkd_ascii = (\<lambda>s. s), unquote = (\<lambda>s. s),
     casefold = lower, url_scheme = plain_scheme,
     sha1_hexdigest = (\<lambda>s. []), repr_list = (\<lambda>xs. []) \<rparr>"

section \<open>Titles and venues\<close>

definition normalize_title :: "pylib \<Rightarrow> string \<Rightarrow> string" where
  "normalize_title L text =
     normalize_whitespace
       (sub_runs (\<lambda>c. \<not> is_lower_alnum c) False (lower (nfkd_ascii L (unescape L text))))"

definition normalize_venue :: "pylib \<Rightarrow> string \<Rightarrow> string" where
  "normalize_venue L text =
     normalize_whitespace
       (sub_runs (\<lambda>c. \<not> is_lower_alnum c) False (lower (nfkd_ascii L (unescape L text))))"

section \<open>DOI normalization\<close>

definition ci_prefix :: "string \<Rightarrow> string \<Rightarrow> string option" where
  \<comment> \<open>match a lower-case literal at the start, ignoring case; the rest of the text\<close>
  "ci_prefix p s =
     (if startswith p (lower (take (length p) s)) then Some (drop (length p) s) else None)"

definition opt_ci_prefix :: "string \<Rightarrow> string \<Rightarrow> string" where
  \<comment> \<open>an optional literal \<^verbatim>\<open>(?:p)?\<close>: taken when it is there\<close>
  "opt_ci_prefix p s = (case ci_prefix p s of None \<Rightarrow> s | Some r \<Rightarrow> r)"

definition DOI_PREFIX_RE_sub :: "string \<Rightarrow> string" where
  \<comment> \<open>\<^verbatim>\<open>re.compile(r"^https?://(?:dx\.)?doi\.org/", re.IGNORECASE).sub("", s)\<close>\<close>
  "DOI_PREFIX_RE_sub s =
     (case ci_prefix ''http'' s of
        None \<Rightarrow> s
      | Some r1 \<Rightarrow>
          (case ci_prefix ''://'' (opt_ci_prefix ''s'' r1) of
             None \<Rightarrow> s
           | Some r2 \<Rightarrow>
               (case ci_prefix ''doi.org/'' (opt_ci_prefix ''dx.'' r2) of
                  None \<Rightarrow> s
                | Some r3 \<Rightarrow> r3)))"

definition normalize_doi :: "string option \<Rightarrow> string option" where
  "normalize_doi raw_doi =
     (case raw_doi of
        None \<Rightarrow> None
      | Some raw \<Rightarrow>
          if raw = [] then None
          else
            let doi = strip raw;
                doi = DOI_PREFIX_RE_sub doi;
                doi = (if startswith ''doi:'' (lower doi) then drop 4 doi else doi);
                doi = lower (strip doi)
            in if doi = [] \<or> \<not> startswith ''10.'' doi then None else Some doi)"


section \<open>arXiv identifiers\<close>

text \<open>
  The four patterns of \<^verbatim>\<open>ARXIV_PATTERNS\<close> are searched with \<^verbatim>\<open>pattern.search\<close>: the leftmost
  position at which the pattern matches wins, and at one position the regular-expression
  engine prefers the longest repetition and backtracks. Each pattern below is the match at
  one position, given the character before it (for \<^verbatim>\<open>\b\<close>), and returns group 1.
\<close>

fun re_search :: "(char option \<Rightarrow> string \<Rightarrow> 'a option) \<Rightarrow> char option \<Rightarrow> string \<Rightarrow> 'a option" where
  "re_search m prev [] = m prev []"
| "re_search m prev (c # cs) =
     (case m prev (c # cs) of Some g \<Rightarrow> Some g | None \<Rightarrow> re_search m (Some c) cs)"

definition at_boundary :: "char option \<Rightarrow> string \<Rightarrow> bool" where
  \<comment> \<open>\<^verbatim>\<open>\b\<close>: exactly one of the two neighbours is a word character\<close>
  "at_boundary prev s \<longleftrightarrow>
     (case prev of None \<Rightarrow> False | Some c \<Rightarrow> is_word c)
       \<noteq> (case s of [] \<Rightarrow> False | c # _ \<Rightarrow> is_word c)"

definition take_digits :: "nat \<Rightarrow> string \<Rightarrow> (string \<times> string) option" where
  \<comment> \<open>exactly \<open>n\<close> decimal digits\<close>
  "take_digits n s =
     (if n \<le> length s \<and> list_all is_digit (take n s) then Some (take n s, drop n s) else None)"

definition version_tail :: "char \<Rightarrow> string \<Rightarrow> string option" where
  \<comment> \<open>\<^verbatim>\<open>(?:v\d+)?\b\<close> after a core that ends in the character \<open>prevc\<close>: the version with the
      longest run of digits if a boundary follows it (a shorter run ends between two digits,
      which is no boundary), else no version if a boundary follows the core\<close>
  "version_tail prevc s =
     (let without = (if at_boundary (Some prevc) s then Some [] else None)
      in case s of
           [] \<Rightarrow> without
         | c # r \<Rightarrow>
             if lower_char c = CHR ''v'' \<and> takeWhile is_digit r \<noteq> [] then
               (let ds = takeWhile is_digit r
                in if at_boundary (Some (last ds)) (dropWhile is_digit r) then Some (c # ds)
                   else without)
             else without)"

definition ARXIV_URL_at :: "char option \<Rightarrow> string \<Rightarrow> string option" where
  \<comment> \<open>\<^verbatim>\<open>arxiv\.org/(?:abs|pdf)/([^/?#]+)\<close>, ignoring case\<close>
  "ARXIV_URL_at prev s =
     (case ci_prefix ''arxiv.org/'' s of
        None \<Rightarrow> None
      | Some r \<Rightarrow>
          (case (case ci_prefix ''abs'' r of Some r1 \<Rightarrow> Some r1 | None \<Rightarrow> ci_prefix ''pdf'' r) of
             None \<Rightarrow> None
           | Some r1 \<Rightarrow>
               (case ci_prefix ''/'' r1 of
                  None \<Rightarrow> None
                | Some r2 \<Rightarrow>
                    (let g = takeWhile (\<lambda>c. c \<notin> set ''/?#'') r2
                     in if g = [] then None else Some g))))"

definition ARXIV_TAG_at :: "char option \<Rightarrow> string \<Rightarrow> string option" where
  \<comment> \<open>\<^verbatim>\<open>\barxiv:\s*([^\s]+)\<close>, ignoring case\<close>
  "ARXIV_TAG_at prev s =
     (if \<not> at_boundary prev s then None
      else case ci_prefix ''arxiv:'' s of
             None \<Rightarrow> None
           | Some r \<Rightarrow>
               (let g = takeWhile (\<lambda>c. \<not> is_space c) (dropWhile is_space r)
                in if g = [] then None else Some g))"

definition ARXIV_NEW_at :: "char option \<Rightarrow> string \<Rightarrow> string option" where
  \<comment> \<open>\<^verbatim>\<open>\b([0-9]{4}\.[0-9]{4,5}(?:v\d+)?)\b\<close>: five digits after the dot are tried before four\<close>
  "ARXIV_NEW_at prev s =
     (if \<not> at_boundary prev s then None
      else case take_digits 4 s of
             None \<Rightarrow> None
           | Some (d1, r1) \<Rightarrow>
               (case r1 of
                  [] \<Rightarrow> None
                | c # r2 \<Rightarrow>
                    if c \<noteq> CHR ''.'' then None
                    else
                      let tail = (\<lambda>n. case take_digits n r2 of
                                    None \<Rightarrow> None
                                  | Some (d2, r3) \<Rightarrow>
                                      (case version_tail (last d2) r3 of
                                         None \<Rightarrow> None
                                       | Some v \<Rightarrow> Some (d1 @ [c] @ d2 @ v)))
                      in (case tail 5 of Some g \<Rightarrow> Some g | None \<Rightarrow> tail 4)))"

definition is_name_char :: "char \<Rightarrow> bool" where
  \<comment> \<open>\<^verbatim>\<open>[a-z\-]\<close>, ignoring case\<close>
  "is_name_char c \<longleftrightarrow> is_ascii_alpha c \<or> c = CHR ''-''"

definition ARXIV_OLD_at :: "char option \<Rightarrow> string \<Rightarrow> string option" where
  \<comment> \<open>\<^verbatim>\<open>\b([a-z\-]+(?:\.[A-Z]{2})?/\d{7}(?:v\d+)?)\b\<close>, ignoring case: the name is the whole run
      of letters and hyphens (after a shorter one neither a dot nor a slash follows), and the
      two-letter class is taken when it is there (without it a slash would have to stand
      where the dot is)\<close>
  "ARXIV_OLD_at prev s =
     (if \<not> at_boundary prev s then None
      else
        let name = takeWhile is_name_char s; r = dropWhile is_name_char s
        in if name = [] then None
           else
             let cls = (case r of
                          c # a # b # _ \<Rightarrow>
                            if c = CHR ''.'' \<and> is_ascii_alpha a \<and> is_ascii_alpha b then take 3 r
                            else []
                        | _ \<Rightarrow> []);
                 r1 = drop (length cls) r
             in case r1 of
                  [] \<Rightarrow> None
                | c # r2 \<Rightarrow>
                    if c \<noteq> CHR ''/'' then None
                    else case take_digits 7 r2 of
                           None \<Rightarrow> None
                         | Some (d, r3) \<Rightarrow>
                             (case version_tail (last d) r3 of
                                None \<Rightarrow> None
                              | Some v \<Rightarrow> Some (name @ cls @ [c] @ d @ v)))"

definition ARXIV_PATTERNS :: "(char option \<Rightarrow> string \<Rightarrow> string option) list" where
  "ARXIV_PATTERNS = [ARXIV_URL_at, ARXIV_TAG_at, ARXIV_NEW_at, ARXIV_OLD_at]"

fun first_match :: "(char option \<Rightarrow> string \<Rightarrow> string option) list \<Rightarrow> string \<Rightarrow> string option" where
  \<comment> \<open>the loop over the patterns, left at the first one that is found\<close>
  "first_match [] candidate = None"
| "first_match (pattern # rest) candidate =
     (case re_search pattern None candidate of
        Some found \<Rightarrow> Some found
      | None \<Rightarrow> first_match rest candidate)"

fun remove_all :: "string \<Rightarrow> nat \<Rightarrow> string \<Rightarrow> string" where
  \<comment> \<open>\<^verbatim>\<open>s.replace(old, "")\<close> for a non-empty \<open>old\<close>: one pass from the left, occurrences do not
      overlap; the counter is the number of characters of the current occurrence still to skip\<close>
  "remove_all old skip [] = []"
| "remove_all old skip (c # cs) =
     (if 0 < skip then remove_all old (skip - 1) cs
      else if startswith old (c # cs) then remove_all old (length old - 1) cs
      else c # remove_all old 0 cs)"

definition strip_version :: "string \<Rightarrow> string" where
  \<comment> \<open>\<^verbatim>\<open>re.sub(r"v\d+$", "", s)\<close> on a stripped string, where \<^verbatim>\<open>$\<close> is the end\<close>
  "strip_version s =
     (let ds = takeWhile is_digit (rev s); r = dropWhile is_digit (rev s)
      in if ds \<noteq> [] \<and> r \<noteq> [] \<and> hd r = CHR ''v'' then rev (tl r) else s)"

definition arxiv_candidate :: "pylib \<Rightarrow> string \<Rightarrow> string" where
  \<comment> \<open>the cleaning steps of \<^verbatim>\<open>normalize_arxiv_id\<close> before the patterns\<close>
  "arxiv_candidate L raw =
     (let candidate = strip raw;
          candidate = unquote L candidate;
          candidate = remove_all ''.pdf'' 0 candidate;
          candidate = takeWhile (\<lambda>c. c \<noteq> CHR ''?'') candidate;
          candidate = takeWhile (\<lambda>c. c \<noteq> CHR ''#'') candidate
      in strip candidate)"

definition normalize_arxiv_id :: "pylib \<Rightarrow> string option \<Rightarrow> string option" where
  "normalize_arxiv_id L raw_arxiv =
     (case raw_arxiv of
        None \<Rightarrow> None
      | Some raw \<Rightarrow>
          if raw = [] then None
          else
            let candidate = arxiv_candidate L raw
            in if candidate = [] then None
               else
                 let matched = (case first_match ARXIV_PATTERNS candidate of
                                  Some g \<Rightarrow> g
                                | None \<Rightarrow> candidate);
                     matched = lower (strip matched);
                     matched = strip_version matched
                 in if matched = [] then None else Some matched)"

definition extract_arxiv_id :: "pylib \<Rightarrow> string option \<Rightarrow> string option" where
  "extract_arxiv_id L text = (if \<not> truthy text then None else normalize_arxiv_id L text)"

section \<open>Venue matching\<close>

definition CANONICAL_VENUE_MARKER_PREFIX :: string where
  "CANONICAL_VENUE_MARKER_PREFIX = ''__canonical_venue__:''"

definition CANONICAL_VENUE_ALIAS_GROUPS :: "(string \<times> string list) list" where
  "CANONICAL_VENUE_ALIAS_GROUPS =
     [(''ieee-sp'',
        [''ieee s p'', ''ieee sp'', ''s p'', ''sp'', ''oakland'', ''ieee security and privacy'',
         ''ieee symposium on security and privacy'', ''symposium on security and privacy'']),
      (''usenix-security'',
        [''usenix security'', ''usenix security symposium'', ''usenix sec'']),
      (''acm-ccs'',
        [''ccs'', ''acm ccs'', ''acm conference on computer and communications security'',
         ''conference on computer and communications security'',
         ''computer and communications security'']),
      (''ndss'',
        [''ndss'', ''ndss symposium'', ''network and distributed system security symposium'',
         ''network and distributed system security'']),
      (''kdd'',
        [''kdd'', ''acm kdd'', ''sigkdd'',
         ''sigkdd conference on knowledge discovery and data mining'',
         ''conference on knowledge discovery and data mining'',
         ''knowledge discovery and data mining''])]"

definition CANONICAL_VENUE_STRONG_TERMS :: "(string \<times> string list) list" where
  "CANONICAL_VENUE_STRONG_TERMS =
     [(''ieee-sp'',
        [''ieee symposium on security and privacy'', ''ieee security and privacy'',
         ''symposium on security and privacy'', ''oakland'']),
      (''usenix-security'', [''usenix security symposium'', ''usenix security'']),
      (''acm-ccs'',
        [''acm conference on computer and communications security'',
         ''conference on computer and communications security'',
         ''computer and communications security'', ''acm ccs'']),
      (''ndss'',
        [''network and distributed system security symposium'',
         ''network and distributed system security'', ''ndss'']),
      (''kdd'',
        [''acm sigkdd conference on knowledge discovery and data mining'',
         ''conference on knowledge discovery and data mining'',
         ''knowledge discovery and data mining'', ''sigkdd'', ''kdd''])]"

definition CANONICAL_VENUE_TOKEN_RULES :: "(string \<times> string list list) list" where
  "CANONICAL_VENUE_TOKEN_RULES =
     [(''ieee-sp'',
        [[''oakland''], [''ieee'', ''security'', ''privacy''],
         [''symposium'', ''security'', ''privacy''], [''ieee'', ''s'', ''p''], [''ieee'', ''sp'']]),
      (''usenix-security'', [[''usenix'', ''security''], [''usenix'', ''sec'']]),
      (''acm-ccs'', [[''acm'', ''ccs''], [''ccs''], [''computer'', ''communications'', ''security'']]),
      (''ndss'', [[''ndss''], [''network'', ''distributed'', ''system'', ''security'']]),
      (''kdd'', [[''kdd''], [''sigkdd''], [''knowledge'', ''discovery'', ''data'', ''mining'']])]"

definition build_canonical_venue_alias_map :: "pylib \<Rightarrow> (string \<times> string) list" where
  \<comment> \<open>the dictionary is an association list in insertion order; a later alias with the same
      normal form overwrites the earlier entry in place\<close>
  "build_canonical_venue_alias_map L =
     fold (\<lambda>(canonical_name, aliases) alias_map.
             fold (\<lambda>alias alias_map.
                     let normalized = normalize_venue L alias
                     in if normalized \<noteq> [] then AList.update normalized canonical_name alias_map
                        else alias_map)
                  aliases alias_map)
          CANONICAL_VENUE_ALIAS_GROUPS []"

definition CANONICAL_VENUE_ALIAS_MAP :: "pylib \<Rightarrow> (string \<times> string) list" where
  "CANONICAL_VENUE_ALIAS_MAP L = build_canonical_venue_alias_map L"

definition canonical_venue_marker :: "string \<Rightarrow> string" where
  "canonical_venue_marker canonical_name = CANONICAL_VENUE_MARKER_PREFIX @ canonical_name"

definition parse_canonical_venue_marker :: "string \<Rightarrow> string option" where
  "parse_canonical_venue_marker term =
     (if startswith CANONICAL_VENUE_MARKER_PREFIX term
      then Some (drop (length CANONICAL_VENUE_MARKER_PREFIX) term) else None)"

definition expand_canonical_venue_alias :: "pylib \<Rightarrow> string \<Rightarrow> string list" where
  "expand_canonical_venue_alias L term =
     (case map_of (CANONICAL_VENUE_ALIAS_MAP L) term of
        None \<Rightarrow> [term]
      | Some canonical_name \<Rightarrow>
          if canonical_name = [] then [term]
          else
            fold (\<lambda>strong_term expanded.
                    if strong_term \<notin> set expanded then expanded @ [strong_term] else expanded)
                 (case map_of CANONICAL_VENUE_STRONG_TERMS canonical_name of
                    None \<Rightarrow> [] | Some ts \<Rightarrow> ts)
                 [canonical_venue_marker canonical_name])"

definition normalize_requested_venue_terms :: "pylib \<Rightarrow> string list \<Rightarrow> string list" where
  \<comment> \<open>the state of the loop is the pair of \<^verbatim>\<open>output\<close> and \<^verbatim>\<open>seen\<close>\<close>
  "normalize_requested_venue_terms L raw_terms =
     fst (fold (\<lambda>raw_term (output, seen).
                  let normalized = normalize_venue L raw_term
                  in if normalized = [] then (output, seen)
                     else fold (\<lambda>expanded_term (output, seen).
                                  if expanded_term \<in> seen then (output, seen)
                                  else (output @ [expanded_term], insert expanded_term seen))
                               (expand_canonical_venue_alias L normalized) (output, seen))
               raw_terms ([], {}))"

definition venue_matches_canonical_alias :: "string set \<Rightarrow> string \<Rightarrow> bool" where
  "venue_matches_canonical_alias venue_tokens canonical_name =
     list_ex (\<lambda>token_group. list_all (\<lambda>token. token \<in> venue_tokens) token_group)
       (case map_of CANONICAL_VENUE_TOKEN_RULES canonical_name of None \<Rightarrow> [] | Some rules \<Rightarrow> rules)"

definition venue_term_matches :: "string \<Rightarrow> string set \<Rightarrow> string \<Rightarrow> bool" where
  "venue_term_matches venue venue_tokens term =
     (case parse_canonical_venue_marker term of
        Some canonical_name \<Rightarrow> venue_matches_canonical_alias venue_tokens canonical_name
      | None \<Rightarrow> contains term venue \<or> contains venue term)"

section \<open>Records and their canonical form\<close>

text \<open>
  A raw record is the dictionary that the parsers of the four sources build: every text field
  is a string or \<^verbatim>\<open>None\<close>, the year is what \<^verbatim>\<open>coerce_year\<close> left of it, the authors and the
  PDF links are lists of strings.
\<close>

record raw_paper =
  raw_title :: "string option"
  raw_year :: "int option"
  raw_venue :: "string option"
  raw_authors :: "string list"
  raw_abstract :: "string option"
  raw_doi :: "string option"
  raw_arxiv_id :: "string option"
  raw_url :: "string option"
  raw_pdf_urls :: "string list"
  raw_source :: "string option"
  raw_source_id :: "string option"

text \<open>
  A canonical record and a cluster are the same dictionary. The key \<^verbatim>\<open>title_norm\<close> is
  removed when the catalog is written, so the field is optional: \<open>None\<close> is the absent key.
\<close>

record paper =
  paper_id :: string
  title :: string
  title_norm :: "string option"
  year :: "int option"
  venue :: string
  authors :: "string list"
  abstract :: "string option"
  doi :: "string option"
  arxiv_id :: "string option"
  url :: "string option"
  pdf_urls :: "string list"
  sources :: "string list"
  source_ids :: "(string \<times> string) list"

definition coerce_year :: "int option \<Rightarrow> int option" where
  "coerce_year v =
     (case v of None \<Rightarrow> None | Some y \<Rightarrow> if 1900 \<le> y \<and> y \<le> 2100 then Some y else None)"

definition clean_url :: "pylib \<Rightarrow> string option \<Rightarrow> string option" where
  "clean_url L u =
     (if \<not> truthy u then None
      else
        let cleaned = strip (or_empty u)
        in if cleaned = [] then None
           else if url_scheme L cleaned \<notin> {''http'', ''https''} then None
           else Some cleaned)"

definition is_probably_pdf_url :: "string \<Rightarrow> bool" where
  "is_probably_pdf_url u =
     (let lowered = lower u
      in if endswith ''.pdf'' lowered then True
         else if contains ''.pdf?'' lowered then True
         else if contains ''download=1'' lowered \<and> contains ''pdf'' lowered then True
         else False)"

definition tag_length :: "string \<Rightarrow> nat" where
  \<comment> \<open>after a \<^verbatim>\<open><\<close>: the length of \<^verbatim>\<open>[^>]+>\<close> if it matches here, else 0\<close>
  "tag_length cs =
     (let run = takeWhile (\<lambda>c. c \<noteq> CHR ''>'') cs
      in if run \<noteq> [] \<and> length run < length cs then length run + 1 else 0)"

fun sub_tags :: "nat \<Rightarrow> string \<Rightarrow> string" where
  \<comment> \<open>\<^verbatim>\<open>re.sub(r"<[^>]+>", " ", s)\<close>; the counter is the number of characters of the current
      tag still to skip\<close>
  "sub_tags skip [] = []"
| "sub_tags skip (c # cs) =
     (if 0 < skip then sub_tags (skip - 1) cs
      else if c = CHR ''<'' \<and> 0 < tag_length cs then CHR '' '' # sub_tags (tag_length cs) cs
      else c # sub_tags 0 cs)"

definition strip_html_tags :: "pylib \<Rightarrow> string option \<Rightarrow> string option" where
  "strip_html_tags L text =
     (if \<not> truthy text then None
      else Some (normalize_whitespace (unescape L (sub_tags 0 (or_empty text)))))"

definition normalize_authors :: "pylib \<Rightarrow> string list \<Rightarrow> string list" where
  \<comment> \<open>the state of the loop is the pair of \<^verbatim>\<open>output\<close> and \<^verbatim>\<open>seen\<close>\<close>
  "normalize_authors L as =
     fst (fold (\<lambda>author (output, seen).
                  let normalized = normalize_whitespace author
                  in if normalized = [] then (output, seen)
                     else let lowered = casefold L normalized
                          in if lowered \<in> seen then (output, seen)
                             else (output @ [normalized], insert lowered seen))
               as ([], {}))"

fun append_unique :: "string list \<Rightarrow> string list \<Rightarrow> string list" where
  \<comment> \<open>the list \<^verbatim>\<open>items\<close> after the call; \<^verbatim>\<open>seen\<close> is the set of \<^verbatim>\<open>items\<close> throughout\<close>
  "append_unique items [] = items"
| "append_unique items (v # vs) =
     (if v = [] then append_unique items vs
      else if v \<in> set items then append_unique items vs
      else append_unique (items @ [v]) vs)"

definition canonicalize_raw_paper :: "pylib \<Rightarrow> raw_paper \<Rightarrow> paper option" where
  "canonicalize_raw_paper L raw =
     (let title = normalize_whitespace (or_empty (raw_title raw))
      in if title = [] then None
         else
           let doi = normalize_doi (raw_doi raw);
               arxiv_id = normalize_arxiv_id L (raw_arxiv_id raw);
               arxiv_id = (if arxiv_id = None
                           then extract_arxiv_id L (Some (or_empty (raw_url raw))) else arxiv_id);
               url = clean_url L (raw_url raw);
               source = (if truthy (raw_source raw) then or_empty (raw_source raw) else ''unknown'');
               source_id = raw_source_id raw;
               pdf_urls = List.map_filter (\<lambda>candidate. clean_url L (Some candidate))
                            (raw_pdf_urls raw);
               pdf_urls = (if truthy url \<and> is_probably_pdf_url (or_empty url)
                           then pdf_urls @ [or_empty url] else pdf_urls);
               abstract = strip_html_tags L (raw_abstract raw);
               venue = normalize_whitespace (or_empty (raw_venue raw));
               authors = normalize_authors L (raw_authors raw)
           in Some \<lparr> paper_id = [], title = title, title_norm = Some (normalize_title L title),
                     year = coerce_year (raw_year raw), venue = venue, authors = authors,
                     abstract = abstract, doi = doi, arxiv_id = arxiv_id, url = url,
                     pdf_urls = append_unique [] pdf_urls, sources = [source],
                     source_ids = (if truthy source_id then [(source, or_empty source_id)] else []) \<rparr>)"

section \<open>The venue and year filter\<close>

definition paper_passes_filters :: "pylib \<Rightarrow> raw_paper \<Rightarrow> string list \<Rightarrow> int set option \<Rightarrow> bool" where
  "paper_passes_filters L p venue_terms years =
     (let year_fails = (case years of
                          None \<Rightarrow> False
                        | Some ys \<Rightarrow>
                            (case coerce_year (raw_year p) of
                               None \<Rightarrow> True
                             | Some paper_year \<Rightarrow> paper_year \<notin> ys))
      in if year_fails then False
         else if venue_terms \<noteq> [] then
           (let venue = normalize_venue L (or_empty (raw_venue p))
            in if venue = [] then False
               else
                 let venue_tokens = set (split_ws venue);
                     matched = list_ex (\<lambda>term. venue_term_matches venue venue_tokens term)
                                 venue_terms
                 in if \<not> matched then False else True)
         else True)"

section \<open>Join keys and merging\<close>

type_synonym key = "string \<times> string"

definition dedup_keys :: "pylib \<Rightarrow> paper \<Rightarrow> key list" where
  "dedup_keys L p =
     (let keys = (if truthy (doi p) then [(''doi'', or_empty (doi p))] else [])
               @ (if truthy (arxiv_id p) then [(''arxiv'', or_empty (arxiv_id p))] else [])
               @ (if truthy (title_norm p) then [(''title'', or_empty (title_norm p))] else [])
      in if keys = [] then
           [(''fallback'',
             sha1_hexdigest L
               (title p @ ''|'' @ (case url p of None \<Rightarrow> ''None'' | Some u \<Rightarrow> u) @ ''|''
                @ repr_list L (sources p)))]
         else keys)"

definition better_text :: "string option \<Rightarrow> string option \<Rightarrow> string option" where
  "better_text current candidate =
     (if \<not> truthy candidate then current
      else if \<not> truthy current then candidate
      else if length (or_empty candidate) > length (or_empty current) then candidate
      else current)"

definition merge_year :: "int option \<Rightarrow> int option \<Rightarrow> int option" where
  \<comment> \<open>the year of the target after the year rule of \<^verbatim>\<open>merge_papers\<close>\<close>
  "merge_year target_field incoming_field =
     (let target_year = coerce_year target_field; incoming_year = coerce_year incoming_field
      in if target_year = None \<and> incoming_year \<noteq> None then incoming_year
         else if target_year \<noteq> None \<and> incoming_year \<noteq> None
           then Some (min (the target_year) (the incoming_year))
         else target_field)"

definition first_write :: "string option \<Rightarrow> string option \<Rightarrow> string option" where
  \<comment> \<open>\<^verbatim>\<open>if not target.get(k) and incoming.get(k): target[k] = incoming[k]\<close>\<close>
  "first_write target_field incoming_field =
     (if \<not> truthy target_field \<and> truthy incoming_field then incoming_field else target_field)"

definition setdefault_all :: "(string \<times> string) list \<Rightarrow> (string \<times> string) list \<Rightarrow> (string \<times> string) list" where
  \<comment> \<open>\<^verbatim>\<open>for source, source_id in incoming.items(): source_ids.setdefault(source, source_id)\<close>\<close>
  "setdefault_all target_ids incoming_ids =
     fold (\<lambda>(source, source_id) m. if source \<in> fst ` set m then m else m @ [(source, source_id)])
          incoming_ids target_ids"

definition merge_papers :: "pylib \<Rightarrow> paper \<Rightarrow> paper \<Rightarrow> paper" where
  \<comment> \<open>the target after the call\<close>
  "merge_papers L target incoming =
     (let new_title = or_empty (better_text (Some (title target)) (Some (title incoming)))
      in target
           \<lparr> title := new_title,
             title_norm := Some (normalize_title L new_title),
             venue := or_empty (better_text (Some (venue target)) (Some (venue incoming))),
             abstract := better_text (abstract target) (abstract incoming),
             year := merge_year (year target) (year incoming),
             doi := first_write (doi target) (doi incoming),
             arxiv_id := first_write (arxiv_id target) (arxiv_id incoming),
             url := first_write (url target) (url incoming),
             authors := append_unique (authors target) (authors incoming),
             pdf_urls := append_unique (pdf_urls target) (pdf_urls incoming),
             sources := append_unique (sources target) (sources incoming),
             source_ids := setdefault_all (source_ids target) (source_ids incoming) \<rparr>)"

section \<open>The resolver\<close>

text \<open>
  The two dictionaries of \<^verbatim>\<open>deduplicate_papers\<close> are association lists in insertion order
  (an assignment to a present key keeps its place, as in Python). A subscript of a missing
  key raises \<^verbatim>\<open>KeyError\<close>, which is the left summand of the result.
\<close>

datatype error = KeyError

record resolver =
  records :: "(nat \<times> paper) list"
  key_to_record :: "(key \<times> nat) list"
  next_record_id :: nat

definition initial_resolver :: resolver where
  "initial_resolver = \<lparr> records = [], key_to_record = [], next_record_id = 1 \<rparr>"

definition matched_ids :: "resolver \<Rightarrow> key list \<Rightarrow> nat list" where
  \<comment> \<open>the set comprehension \<^verbatim>\<open>matched\<close>, as a list without repetitions\<close>
  "matched_ids st keys =
     remdups
       (List.map_filter
          (\<lambda>key. case map_of (key_to_record st) key of
                    None \<Rightarrow> None
                  | Some owner \<Rightarrow> if owner \<in> fst ` set (records st) then Some owner else None)
          keys)"

fun absorb_others :: "pylib \<Rightarrow> nat \<Rightarrow> nat list \<Rightarrow> resolver \<Rightarrow> error + resolver" where
  \<comment> \<open>the loop \<^verbatim>\<open>for other_id in sorted(matched)\<close>\<close>
  "absorb_others L record_id [] st = Inr st"
| "absorb_others L record_id (other_id # rest) st =
     (if other_id = record_id then absorb_others L record_id rest st
      else
        case map_of (records st) record_id of
          None \<Rightarrow> Inl KeyError
        | Some target \<Rightarrow>
            (case map_of (records st) other_id of
               None \<Rightarrow> Inl KeyError
             | Some absorbed \<Rightarrow>
                 absorb_others L record_id rest
                   (st \<lparr> records :=
                            AList.update record_id (merge_papers L target absorbed)
                              (AList.delete other_id (records st)),
                          key_to_record :=
                            map (\<lambda>(key, owner). (key, if owner = other_id then record_id else owner))
                                (key_to_record st) \<rparr>)))"

definition point_keys :: "pylib \<Rightarrow> nat \<Rightarrow> resolver \<Rightarrow> error + resolver" where
  \<comment> \<open>\<^verbatim>\<open>for key in dedup_keys(records[record_id]): key_to_record[key] = record_id\<close>\<close>
  "point_keys L record_id st =
     (case map_of (records st) record_id of
        None \<Rightarrow> Inl KeyError
      | Some r \<Rightarrow>
          Inr (st \<lparr> key_to_record :=
                      fold (\<lambda>key m. AList.update key record_id m) (dedup_keys L r)
                           (key_to_record st) \<rparr>))"

definition resolve_record :: "pylib \<Rightarrow> resolver \<Rightarrow> paper \<Rightarrow> error + resolver" where
  \<comment> \<open>the body of the loop of \<^verbatim>\<open>deduplicate_papers\<close> for one canonical record\<close>
  "resolve_record L st canonical =
     (let keys = dedup_keys L canonical; matched = matched_ids st keys
      in if matched = [] then
           (let record_id = next_record_id st
            in point_keys L record_id
                 (st \<lparr> records := AList.update record_id canonical (records st),
                        next_record_id := record_id + 1 \<rparr>))
         else
           (let record_id = Min (set matched)
            in case absorb_others L record_id (sort matched) st of
                 Inl e \<Rightarrow> Inl e
               | Inr st1 \<Rightarrow>
                   (case map_of (records st1) record_id of
                      None \<Rightarrow> Inl KeyError
                    | Some target \<Rightarrow>
                        point_keys L record_id
                          (st1 \<lparr> records :=
                                   AList.update record_id (merge_papers L target canonical)
                                     (records st1) \<rparr>))))"

fun resolve_all :: "pylib \<Rightarrow> resolver \<Rightarrow> paper list \<Rightarrow> error + resolver" where
  "resolve_all L st [] = Inr st"
| "resolve_all L st (canonical # rest) =
     (case resolve_record L st canonical of
        Inl e \<Rightarrow> Inl e
      | Inr st1 \<Rightarrow> resolve_all L st1 rest)"

definition finalize :: "pylib \<Rightarrow> paper \<Rightarrow> paper" where
  \<comment> \<open>the body of the output loop: one cluster as it is written to the catalog\<close>
  "finalize L p =
     p \<lparr> authors := normalize_authors L (authors p),
         pdf_urls := append_unique (pdf_urls p) [],
         sources := append_unique (sources p) [],
         source_ids := sort (source_ids p),
         paper_id :=
           (if truthy (doi p) then ''doi:'' @ or_empty (doi p)
            else if truthy (arxiv_id p) then ''arxiv:'' @ or_empty (arxiv_id p)
            else ''title:'' @ take 16 (sha1_hexdigest L (or_empty (title_norm p)))),
         title_norm := None \<rparr>"

definition emit :: "pylib \<Rightarrow> resolver \<Rightarrow> paper list" where
  \<comment> \<open>\<^verbatim>\<open>for record_id in sorted(records)\<close>: the clusters by ascending id\<close>
  "emit L st = map (\<lambda>(record_id, p). finalize L p) (sort_key fst (records st))"

definition deduplicate_papers :: "pylib \<Rightarrow> raw_paper list \<Rightarrow> error + paper list" where
  \<comment> \<open>a raw record without a title is skipped; the others are resolved in arrival order\<close>
  "deduplicate_papers L raw_papers =
     (case resolve_all L initial_resolver (List.map_filter (canonicalize_raw_paper L) raw_papers) of
        Inl e \<Rightarrow> Inl e
      | Inr st \<Rightarrow> Inr (emit L st))"

section \<open>The consistency of the resolver state\<close>

definition record_ids :: "resolver \<Rightarrow> nat set" where
  "record_ids st = fst ` set (records st)"

definition resolver_inv :: "resolver \<Rightarrow> bool" where
  \<comment> \<open>both dictionaries have each key once, every owner in the key index is a stored cluster,
      and the ids in use are below the counter\<close>
  "resolver_inv st \<longleftrightarrow>
     distinct (map fst (records st)) \<and> distinct (map fst (key_to_record st))
     \<and> snd ` set (key_to_record st) \<subseteq> record_ids st
     \<and> (\<forall>i \<in> record_ids st. i < next_record_id st)"

definition canonical_form :: "pylib \<Rightarrow> paper \<Rightarrow> bool" where
  \<comment> \<open>what \<^verbatim>\<open>canonicalize_raw_paper\<close> guarantees of its result and \<^verbatim>\<open>merge_papers\<close> keeps\<close>
  "canonical_form L c \<longleftrightarrow>
     title_norm c = Some (normalize_title L (title c)) \<and> coerce_year (year c) = year c
     \<and> title c \<noteq> []"

section \<open>Example records\<close>

definition example_raw :: "string \<Rightarrow> string option \<Rightarrow> string option \<Rightarrow> int option \<Rightarrow> raw_paper" where
  \<comment> \<open>a raw record of the source \<^verbatim>\<open>crossref\<close> with a title, identifiers and a year\<close>
  "example_raw t d a y =
     \<lparr> raw_title = Some t, raw_year = y, raw_venue = None, raw_authors = [],
       raw_abstract = None, raw_doi = d, raw_arxiv_id = a, raw_url = None, raw_pdf_urls = [],
       raw_source = Some ''crossref'', raw_source_id = None \<rparr>"

definition example_paper :: "string \<Rightarrow> string option \<Rightarrow> string option \<Rightarrow> int option \<Rightarrow> paper" where
  \<comment> \<open>the canonical form of \<^const>\<open>example_raw\<close> for identifiers already in normal form\<close>
  "example_paper t d a y =
     \<lparr> paper_id = [], title = t, title_norm = Some (normalize_title plain_lib t), year = y,
       venue = [], authors = [], abstract = None, doi = d, arxiv_id = a, url = None,
       pdf_urls = [], sources = [''crossref''], source_ids = [] \<rparr>"

definition example_state :: resolver where
  \<comment> \<open>the resolver after a record with a DOI only and a record with an arXiv id only\<close>
  "example_state =
     \<lparr> records = [(1, example_paper ''Deep Nets'' (Some ''10.1/ab'') None None),
                  (2, example_paper ''Wide Nets!'' None (Some ''2301.00001'') None)],
       key_to_record = [((''doi'', ''10.1/ab''), 1), ((''title'', ''deep nets''), 1),
                        ((''arxiv'', ''2301.00001''), 2), ((''title'', ''wide nets''), 2)],
       next_record_id = 3 \<rparr>"

section \<open>Properties of the text primitives\<close>


lemma startswith_take: "startswith p (take (length p) s) = startswith p s"
  by (induction p s rule: startswith.induct) auto

lemma lower_append: "lower (a @ b) = lower a @ lower b"
  by (simp add: lower_def)

lemma ci_prefix_app:
  "length p \<le> length u \<Longrightarrow>
   ci_prefix p (u @ r) = (if startswith p (lower u) then Some (drop (length p) u @ r) else None)"
  by (simp add: ci_prefix_def lower_def startswith_take flip: take_map)

lemma lower_drop: "lower (drop n u) = drop n (lower u)"
  by (simp add: lower_def drop_map)

lemma length_lower: "length (lower s) = length s"
  by (simp add: lower_def)

lemma strip_id: "s \<noteq> [] \<Longrightarrow> \<not> is_space (hd s) \<Longrightarrow> \<not> is_space (last s) \<Longrightarrow> strip s = s"
proof -
  assume a: "s \<noteq> []" "\<not> is_space (hd s)" "\<not> is_space (last s)"
  from a(1,2) have 1: "dropWhile is_space s = s" by (cases s) auto
  from a(1,3) have 2: "dropWhile is_space (rev s) = rev s" by (cases s rule: rev_cases) auto
  show ?thesis by (simp add: strip_def 1 2)
qed

lemma not_space_lits: "\<not> is_space CHR ''1''" "\<not> is_space CHR ''h''" "\<not> is_space CHR ''d''"
  by (simp_all add: is_space_def)

lemma lower_char_fix: "\<not> is_upper (lower_char c)"
  apply (cases c)
  subgoal for b0 b1 b2 b3 b4 b5 b6 b7
    by (cases b0; cases b1; cases b2; cases b3; cases b4; cases b5; cases b6; cases b7;
        simp add: lower_char_def is_upper_def)
  done

lemma lower_idem: "lower (lower s) = lower s"
  by (induction s) (auto simp: lower_def lower_char_def lower_char_fix[unfolded lower_char_def])


lemma drop_lower_eq: "lower u = q \<Longrightarrow> lower (drop n u) = drop n q"
  by (simp add: lower_drop)

lemma startswith_lower_10: "startswith ''10.'' b \<Longrightarrow> startswith ''10.'' (lower b)"
  by (cases b; cases "tl b"; cases "tl (tl b)") (auto simp: lower_def lower_char_def is_upper_def)

lemma DOI_PREFIX_RE_sub_url:
  assumes "lower u \<in> {''http://doi.org/'', ''https://doi.org/'', ''http://dx.doi.org/'', ''https://dx.doi.org/''}"
  shows "DOI_PREFIX_RE_sub (u @ r) = r"
proof -
  from assms consider "lower u = ''http://doi.org/''" | "lower u = ''https://doi.org/''"
    | "lower u = ''http://dx.doi.org/''" | "lower u = ''https://dx.doi.org/''" by auto
  then show ?thesis
  proof cases
    case 1
    then have l: "length u = 15" using length_lower[of u] by simp
    show ?thesis
      using 1 l by (simp add: DOI_PREFIX_RE_sub_def opt_ci_prefix_def ci_prefix_app lower_drop)
  next
    case 2
    then have l: "length u = 16" using length_lower[of u] by simp
    show ?thesis
      using 2 l by (simp add: DOI_PREFIX_RE_sub_def opt_ci_prefix_def ci_prefix_app lower_drop)
  next
    case 3
    then have l: "length u = 18" using length_lower[of u] by simp
    show ?thesis
      using 3 l by (simp add: DOI_PREFIX_RE_sub_def opt_ci_prefix_def ci_prefix_app lower_drop)
  next
    case 4
    then have l: "length u = 19" using length_lower[of u] by simp
    show ?thesis
      using 4 l by (simp add: DOI_PREFIX_RE_sub_def opt_ci_prefix_def ci_prefix_app lower_drop)
  qed
qed

lemma is_space_lower_char: "is_space c \<Longrightarrow> lower_char c = c"
  by (auto simp: lower_char_def is_upper_def is_space_def Let_def)

lemma not_space_if_lower: "\<not> is_space (lower_char c) \<Longrightarrow> \<not> is_space c"
  using is_space_lower_char[of c] by auto

lemma DOI_PREFIX_RE_sub_none:
  "s \<noteq> [] \<Longrightarrow> lower_char (hd s) \<noteq> CHR ''h'' \<Longrightarrow> DOI_PREFIX_RE_sub s = s"
  by (cases s) (auto simp: DOI_PREFIX_RE_sub_def ci_prefix_def lower_def)

lemma hd_lower: "s \<noteq> [] \<Longrightarrow> lower_char (hd s) = hd (lower s)"
  by (cases s) (auto simp: lower_def)

lemma normalize_doi_bare:
  assumes b: "startswith ''10.'' b" "\<not> is_space (last b)"
  shows "normalize_doi (Some b) = Some (lower b)"
proof -
  from b(1) have ne: "b \<noteq> []" and hd: "hd b = CHR ''1''" by (cases b; simp)+
  have st: "strip b = b" using ne hd b(2) by (simp add: strip_id is_space_def)
  have lc: "lower_char (hd b) = CHR ''1''" using hd by (simp add: lower_char_def is_upper_def)
  have sub: "DOI_PREFIX_RE_sub b = b" using ne lc by (simp add: DOI_PREFIX_RE_sub_none)
  have nd: "\<not> startswith ''doi:'' (lower b)"
    using ne lc by (cases b) (auto simp: lower_def)
  have l10: "startswith ''10.'' (lower b)" using b(1) by (rule startswith_lower_10)
  then have lne: "lower b \<noteq> []" by auto
  show ?thesis
    using ne by (simp add: normalize_doi_def st sub nd l10 lne Let_def)
qed

lemma normalize_doi_tagged:
  assumes d: "lower d = ''doi:''" and b: "startswith ''10.'' b" "\<not> is_space (last b)"
  shows "normalize_doi (Some (d @ b)) = Some (lower b)"
proof -
  from b(1) have ne: "b \<noteq> []" and hd: "hd b = CHR ''1''" by (cases b; simp)+
  have ld: "length d = 4" using d length_lower[of d] by simp
  then have dne: "d \<noteq> []" by auto
  have hdd: "lower_char (hd d) = CHR ''d''" using d dne by (simp add: hd_lower)
  then have "\<not> is_space (lower_char (hd d))" by (simp add: is_space_def)
  then have nsp: "\<not> is_space (hd d)" by (rule not_space_if_lower)
  have st: "strip b = b" using ne hd b(2) by (simp add: strip_id is_space_def)
  have st2: "strip (d @ b) = d @ b" using ne dne nsp b(2) by (simp add: strip_id)
  have sub: "DOI_PREFIX_RE_sub (d @ b) = d @ b"
    using dne hdd by (simp add: DOI_PREFIX_RE_sub_none)
  have tag: "startswith ''doi:'' (lower (d @ b))"
    using d by (simp add: lower_append)
  have l10: "startswith ''10.'' (lower b)" using b(1) by (rule startswith_lower_10)
  then have lne: "lower b \<noteq> []" by auto
  show ?thesis
    using dne by (simp add: normalize_doi_def st2 sub tag ld st l10 lne Let_def)
qed

lemma normalize_doi_url:
  assumes u: "lower u \<in> {''http://doi.org/'', ''https://doi.org/'', ''http://dx.doi.org/'', ''https://dx.doi.org/''}"
    and d: "lower d \<in> {[], ''doi:''}" and b: "startswith ''10.'' b" "\<not> is_space (last b)"
  shows "normalize_doi (Some (u @ d @ b)) = Some (lower b)"
proof -
  from b(1) have ne: "b \<noteq> []" and hd: "hd b = CHR ''1''" by (cases b; simp)+
  from u have une: "u \<noteq> []" by (auto simp: lower_def)
  from u have "hd (lower u) = CHR ''h''" by auto
  then have hdu: "lower_char (hd u) = CHR ''h''" using une by (simp add: hd_lower)
  then have "\<not> is_space (lower_char (hd u))" by (simp add: is_space_def)
  then have nsp: "\<not> is_space (hd u)" by (rule not_space_if_lower)
  have st2: "strip (u @ d @ b) = u @ d @ b" using ne une nsp b(2) by (simp add: strip_id)
  have sub: "DOI_PREFIX_RE_sub (u @ d @ b) = d @ b" using u by (rule DOI_PREFIX_RE_sub_url)
  have st: "strip b = b" using ne hd b(2) by (simp add: strip_id is_space_def)
  have l10: "startswith ''10.'' (lower b)" using b(1) by (rule startswith_lower_10)
  then have lne: "lower b \<noteq> []" by auto
  from d consider "d = []" | "lower d = ''doi:''" by (auto simp: lower_def)
  then show ?thesis
  proof cases
    case 1
    have lc: "lower_char (hd b) = CHR ''1''" using hd by (simp add: lower_char_def is_upper_def)
    have nd: "\<not> startswith ''doi:'' (lower b)"
      using ne lc by (cases b) (auto simp: lower_def)
    have st2': "strip (u @ b) = u @ b" using st2 1 by simp
    have sub': "DOI_PREFIX_RE_sub (u @ b) = b" using sub 1 by simp
    show ?thesis using une 1
      by (simp add: normalize_doi_def st2' sub' nd st l10 lne Let_def)
  next
    case 2
    have ld: "length d = 4" using 2 length_lower[of d] by simp
    have tag: "startswith ''doi:'' (lower (d @ b))"
      using 2 by (simp add: lower_append)
    show ?thesis using une
      by (simp add: normalize_doi_def st2 sub tag ld st l10 lne Let_def)
  qed
qed

lemma normalize_doi_result:
  "normalize_doi raw = Some r \<Longrightarrow> startswith ''10.'' r \<and> lower r = r \<and> r \<noteq> []"
  by (auto simp: normalize_doi_def Let_def lower_idem split: option.splits if_splits)

section \<open>DOI normalization: the claim\<close>

text \<open>
  Claim C8. \<^const>\<open>normalize_doi\<close> removes a leading \<^verbatim>\<open>http(s)://doi.org/\<close> or
  \<^verbatim>\<open>http(s)://dx.doi.org/\<close> (in any letter case) and a \<^verbatim>\<open>doi:\<close> tag, lower-cases the
  rest and returns it only if it starts with \<^verbatim>\<open>10.\<close>: for a bare DOI \<open>b\<close> that starts with
  \<^verbatim>\<open>10.\<close> and has no trailing white space, every such prefix gives \<open>lower b\<close>; whatever is
  returned is lower-case and starts with \<^verbatim>\<open>10.\<close>; nothing is returned for an absent or
  empty input. The three spellings of \<^verbatim>\<open>10.1145/3548606.3560685\<close> give that string.
\<close>

theorem normalize_doi_strips_prefixes:
  "(\<forall>u d b.
      lower u \<in> {[], ''http://doi.org/'', ''https://doi.org/'', ''http://dx.doi.org/'',
                  ''https://dx.doi.org/''}
      \<and> lower d \<in> {[], ''doi:''} \<and> startswith ''10.'' b \<and> \<not> is_space (last b)
      \<longrightarrow> normalize_doi (Some (u @ d @ b)) = Some (lower b))
   \<and> (\<forall>raw r. normalize_doi raw = Some r \<longrightarrow> startswith ''10.'' r \<and> lower r = r)
   \<and> normalize_doi None = None \<and> normalize_doi (Some []) = None
   \<and> normalize_doi (Some ''https://doi.org/10.1145/3548606.3560685'')
        = Some ''10.1145/3548606.3560685''
   \<and> normalize_doi (Some ''DOI:10.1145/3548606.3560685'') = Some ''10.1145/3548606.3560685''
   \<and> normalize_doi (Some ''10.1145/3548606.3560685'') = Some ''10.1145/3548606.3560685''"
proof (intro conjI allI impI)
  fix u d b
  assume h: "lower u \<in> {[], ''http://doi.org/'', ''https://doi.org/'', ''http://dx.doi.org/'',
                  ''https://dx.doi.org/''}
      \<and> lower d \<in> {[], ''doi:''} \<and> startswith ''10.'' b \<and> \<not> is_space (last b)"
  then have b: "startswith ''10.'' b" "\<not> is_space (last b)" by simp_all
  from h have d: "lower d \<in> {[], ''doi:''}" by simp
  from h consider "u = []"
    | "lower u \<in> {''http://doi.org/'', ''https://doi.org/'', ''http://dx.doi.org/'',
                  ''https://dx.doi.org/''}"
    by (auto simp: lower_def)
  then show "normalize_doi (Some (u @ d @ b)) = Some (lower b)"
  proof cases
    case 1
    from d consider "d = []" | "lower d = ''doi:''" by (auto simp: lower_def)
    then show ?thesis
    proof cases
      case 1
      with \<open>u = []\<close> show ?thesis using normalize_doi_bare[OF b] by simp
    next
      case 2
      with \<open>u = []\<close> show ?thesis using normalize_doi_tagged[OF 2 b] by simp
    qed
  next
    case 2
    then show ?thesis using d b by (rule normalize_doi_url)
  qed
next
  fix raw r
  assume "normalize_doi raw = Some r"
  then show "startswith ''10.'' r" and "lower r = r"
    using normalize_doi_result by blast+
next
  show "normalize_doi None = None" by (simp add: normalize_doi_def)
  show "normalize_doi (Some []) = None" by (simp add: normalize_doi_def)
  show "normalize_doi (Some ''https://doi.org/10.1145/3548606.3560685'')
        = Some ''10.1145/3548606.3560685''" by code_simp
  show "normalize_doi (Some ''DOI:10.1145/3548606.3560685'') = Some ''10.1145/3548606.3560685''"
    by code_simp
  show "normalize_doi (Some ''10.1145/3548606.3560685'') = Some ''10.1145/3548606.3560685''"
    by code_simp
qed

theorem normalize_doi_strips_prefixes_witness:
  "lower ''HTTPS://DX.DOI.ORG/'' \<in> {[], ''http://doi.org/'', ''https://doi.org/'',
       ''http://dx.doi.org/'', ''https://dx.doi.org/''}
   \<and> lower ''Doi:'' \<in> {[], ''doi:''} \<and> startswith ''10.'' ''10.1000/XyZ''
   \<and> \<not> is_space (last ''10.1000/XyZ'')
   \<and> normalize_doi (Some ''HTTPS://DX.DOI.ORG/Doi:10.1000/XyZ'') = Some ''10.1000/xyz''
   \<and> normalize_doi (Some ''10.1000/xyz'') = Some ''10.1000/xyz''
   \<and> startswith ''10.'' ''10.1000/xyz'' \<and> lower ''10.1000/xyz'' = ''10.1000/xyz''"
proof -
  have 1: "lower ''HTTPS://DX.DOI.ORG/'' \<in> {[], ''http://doi.org/'', ''https://doi.org/'',
       ''http://dx.doi.org/'', ''https://dx.doi.org/''}" by code_simp
  have 2: "lower ''Doi:'' \<in> {[], ''doi:''}" by code_simp
  have 3: "startswith ''10.'' ''10.1000/XyZ''" by simp
  have 4: "\<not> is_space (last ''10.1000/XyZ'')" by code_simp
  have 5: "lower ''10.1000/XyZ'' = ''10.1000/xyz''" by code_simp
  from normalize_doi_strips_prefixes 1 2 3 4
  have "normalize_doi (Some (''HTTPS://DX.DOI.ORG/'' @ ''Doi:'' @ ''10.1000/XyZ''))
          = Some (lower ''10.1000/XyZ'')" by blast
  then have 6: "normalize_doi (Some ''HTTPS://DX.DOI.ORG/Doi:10.1000/XyZ'') = Some ''10.1000/xyz''"
    using 5 by simp
  have 7: "normalize_doi (Some ''10.1000/xyz'') = Some ''10.1000/xyz''" by code_simp
  from normalize_doi_strips_prefixes 7
  have 8: "startswith ''10.'' ''10.1000/xyz'' \<and> lower ''10.1000/xyz'' = ''10.1000/xyz''"
    by blast
  show ?thesis using 1 2 3 4 6 7 8 by blast
qed


section \<open>Properties of the resolver\<close>


lemma set_update_subset: "set (AList.update k v al) \<subseteq> insert (k, v) (set al)"
  by (induction al) auto

lemma fold_update_map_of:
  "map_of (fold (\<lambda>key m. AList.update key rid m) keys al) k
     = (if k \<in> set keys then Some rid else map_of al k)"
  by (induction keys arbitrary: al) (auto simp: update_conv')

lemma fold_update_distinct:
  "distinct (map fst al) \<Longrightarrow> distinct (map fst (fold (\<lambda>key m. AList.update key rid m) keys al))"
  by (induction keys arbitrary: al) (auto simp: distinct_update)

lemma fold_update_owners:
  "snd ` set (fold (\<lambda>key m. AList.update key rid m) keys al) \<subseteq> insert rid (snd ` set al)"
proof (induction keys arbitrary: al)
  case Nil
  then show ?case by auto
next
  case (Cons k ks)
  have "snd ` set (AList.update k rid al) \<subseteq> insert rid (snd ` set al)"
    using set_update_subset[of k rid al] by force
  with Cons[of "AList.update k rid al"] show ?case by auto
qed

lemma fold_update_triv:
  "\<forall>k \<in> set keys. map_of al k = Some rid \<Longrightarrow> fold (\<lambda>key m. AList.update key rid m) keys al = al"
  by (induction keys arbitrary: al) (auto simp: update_triv)

lemma ids_delete: "fst ` set (AList.delete k al) = fst ` set al - {k}"
  by (induction al) auto

lemma absorb_others_spec:
  assumes "distinct (map fst (records st))" "rid \<in> record_ids st"
    "set others \<subseteq> record_ids st" "distinct others"
  shows "\<exists>st'. absorb_others L rid others st = Inr st'
      \<and> distinct (map fst (records st'))
      \<and> record_ids st' = record_ids st - (set others - {rid})
      \<and> (\<forall>i. i \<noteq> rid \<longrightarrow> i \<notin> set others \<longrightarrow> map_of (records st') i = map_of (records st) i)
      \<and> map_of (records st') rid
          = Some (foldl (merge_papers L) (the (map_of (records st) rid))
                    (map (\<lambda>i. the (map_of (records st) i)) (filter (\<lambda>i. i \<noteq> rid) others)))
      \<and> key_to_record st'
          = map (\<lambda>(k, owner). (k, if owner \<in> set others then rid else owner)) (key_to_record st)
      \<and> next_record_id st' = next_record_id st"
  using assms
proof (induction others arbitrary: st)
  case Nil
  then obtain r where "map_of (records st) rid = Some r"
    by (metis record_ids_def weak_map_of_SomeI image_iff prod.collapse map_of_eq_None_iff not_Some_eq)
  with Nil.prems show ?case by simp
next
  case (Cons other rest)
  show ?case
  proof (cases "other = rid")
    case True
    with Cons.prems have p: "set rest \<subseteq> record_ids st" "distinct rest" "rid \<notin> set rest" by auto
    from Cons.IH[OF Cons.prems(1,2) p(1,2)] obtain st' where st':
      "absorb_others L rid rest st = Inr st'"
      "distinct (map fst (records st'))"
      "record_ids st' = record_ids st - (set rest - {rid})"
      "\<forall>i. i \<noteq> rid \<longrightarrow> i \<notin> set rest \<longrightarrow> map_of (records st') i = map_of (records st) i"
      "map_of (records st') rid
          = Some (foldl (merge_papers L) (the (map_of (records st) rid))
                    (map (\<lambda>i. the (map_of (records st) i)) (filter (\<lambda>i. i \<noteq> rid) rest)))"
      "key_to_record st'
          = map (\<lambda>(k, owner). (k, if owner \<in> set rest then rid else owner)) (key_to_record st)"
      "next_record_id st' = next_record_id st" by blast
    have k: "map (\<lambda>(k, owner). (k, if owner \<in> set rest then rid else owner)) (key_to_record st)
        = map (\<lambda>(k, owner). (k, if owner \<in> set (other # rest) then rid else owner)) (key_to_record st)"
      using True by auto
    show ?thesis
      using True st' k by (auto simp del: map_eq_conv)
  next
    case False
    from Cons.prems obtain target where t: "map_of (records st) rid = Some target"
      by (metis record_ids_def image_iff prod.collapse map_of_eq_None_iff not_Some_eq)
    from Cons.prems obtain absorbed where a: "map_of (records st) other = Some absorbed"
      by (metis record_ids_def image_iff prod.collapse map_of_eq_None_iff not_Some_eq list.set_intros(1) subsetD)
    define st1 where "st1 = st \<lparr> records :=
                            AList.update rid (merge_papers L target absorbed)
                              (AList.delete other (records st)),
                          key_to_record :=
                            map (\<lambda>(key, owner). (key, if owner = other then rid else owner))
                                (key_to_record st) \<rparr>"
    have step: "absorb_others L rid (other # rest) st = absorb_others L rid rest st1"
      using False t a by (simp add: st1_def)
    have d1: "distinct (map fst (records st1))"
      using Cons.prems(1) by (simp add: st1_def distinct_update distinct_delete)
    have ids1: "record_ids st1 = record_ids st - {other}"
      using Cons.prems(2) False by (auto simp: st1_def record_ids_def dom_update ids_delete)
    have rid1: "rid \<in> record_ids st1" using ids1 Cons.prems(2) False by auto
    have rest1: "set rest \<subseteq> record_ids st1" "distinct rest"
      using ids1 Cons.prems(3,4) by auto
    have m1: "map_of (records st1) = ((map_of (records st))(other := None))(rid \<mapsto> merge_papers L target absorbed)"
      by (simp add: st1_def update_conv' delete_conv')
    from Cons.IH[OF d1 rid1 rest1] obtain st' where st':
      "absorb_others L rid rest st1 = Inr st'"
      "distinct (map fst (records st'))"
      "record_ids st' = record_ids st1 - (set rest - {rid})"
      "\<forall>i. i \<noteq> rid \<longrightarrow> i \<notin> set rest \<longrightarrow> map_of (records st') i = map_of (records st1) i"
      "map_of (records st') rid
          = Some (foldl (merge_papers L) (the (map_of (records st1) rid))
                    (map (\<lambda>i. the (map_of (records st1) i)) (filter (\<lambda>i. i \<noteq> rid) rest)))"
      "key_to_record st'
          = map (\<lambda>(k, owner). (k, if owner \<in> set rest then rid else owner)) (key_to_record st1)"
      "next_record_id st' = next_record_id st1" by blast
    have e1: "map (\<lambda>i. the (map_of (records st1) i)) (filter (\<lambda>i. i \<noteq> rid) rest)
            = map (\<lambda>i. the (map_of (records st) i)) (filter (\<lambda>i. i \<noteq> rid) rest)"
      using Cons.prems(4) by (auto simp: m1)
    have e2: "the (map_of (records st1) rid) = merge_papers L target absorbed" by (simp add: m1)
    have k: "key_to_record st'
        = map (\<lambda>(k, owner). (k, if owner \<in> set (other # rest) then rid else owner)) (key_to_record st)"
      unfolding st'(6) by (auto simp: st1_def)
    have "record_ids st' = record_ids st - (set (other # rest) - {rid})"
      using st'(3) ids1 False by auto
    moreover have "\<forall>i. i \<noteq> rid \<longrightarrow> i \<notin> set (other # rest) \<longrightarrow> map_of (records st') i = map_of (records st) i"
      using st'(4) by (auto simp: m1)
    moreover have "map_of (records st') rid
          = Some (foldl (merge_papers L) (the (map_of (records st) rid))
                    (map (\<lambda>i. the (map_of (records st) i)) (filter (\<lambda>i. i \<noteq> rid) (other # rest))))"
      using st'(5) False t a by (simp add: e1 e2)
    moreover have "next_record_id st' = next_record_id st" using st'(7) by (simp add: st1_def)
    ultimately show ?thesis using step st'(1,2) k by simp
  qed
qed


lemma update_fresh: "k \<notin> fst ` set al \<Longrightarrow> AList.update k v al = al @ [(k, v)]"
  by (induction al) auto

lemma map_of_in_ids: "i \<in> fst ` set al \<Longrightarrow> \<exists>r. map_of al i = Some r"
  by (metis image_iff prod.collapse map_of_eq_None_iff not_Some_eq)

lemma map_of_is_in_ids: "map_of al i = Some r \<Longrightarrow> i \<in> fst ` set al"
  by (metis map_of_eq_None_iff option.distinct(1))

lemma set_map_filter_eq: "set (List.map_filter f xs) = {y. \<exists>x \<in> set xs. f x = Some y}"
  by (induction xs) (auto split: option.splits)

lemma set_matched_ids:
  "set (matched_ids st keys)
     = {owner. \<exists>k \<in> set keys. map_of (key_to_record st) k = Some owner \<and> owner \<in> record_ids st}"
proof -
  have "\<And>k owner. (case map_of (key_to_record st) k of None \<Rightarrow> None
          | Some owner \<Rightarrow> if owner \<in> fst ` set (records st) then Some owner else None) = Some owner
        \<longleftrightarrow> map_of (key_to_record st) k = Some owner \<and> owner \<in> record_ids st"
    by (auto simp: record_ids_def split: option.splits)
  then show ?thesis by (simp add: matched_ids_def set_map_filter_eq)
qed

lemma distinct_matched_ids: "distinct (matched_ids st keys)"
  by (simp add: matched_ids_def)

lemma owner_in_ids:
  "resolver_inv st \<Longrightarrow> map_of (key_to_record st) k = Some owner \<Longrightarrow> owner \<in> record_ids st"
  by (force simp: resolver_inv_def dest: map_of_SomeD)

lemma resolve_record_new:
  assumes inv: "resolver_inv st" and m: "matched_ids st (dedup_keys L c) = []"
  shows "\<exists>st'. resolve_record L st c = Inr st' \<and> resolver_inv st'
     \<and> records st' = records st @ [(next_record_id st, c)]
     \<and> next_record_id st' = next_record_id st + 1
     \<and> (\<forall>k. map_of (key_to_record st') k
              = (if k \<in> set (dedup_keys L c) then Some (next_record_id st)
                 else map_of (key_to_record st) k))"
proof -
  let ?n = "next_record_id st"
  have fresh: "?n \<notin> fst ` set (records st)"
    using inv by (auto simp: resolver_inv_def record_ids_def)
  have up: "AList.update ?n c (records st) = records st @ [(?n, c)]"
    using fresh by (rule update_fresh)
  define st' where "st' = st \<lparr> records := records st @ [(?n, c)], next_record_id := ?n + 1,
      key_to_record := fold (\<lambda>key m. AList.update key ?n m) (dedup_keys L c) (key_to_record st) \<rparr>"
  have none: "map_of (records st) ?n = None"
    using fresh by (simp add: map_of_eq_None_iff)
  have pk: "point_keys L ?n (st \<lparr> records := records st @ [(?n, c)], next_record_id := ?n + 1 \<rparr>)
      = Inr st'"
    by (simp add: point_keys_def map_add_def none st'_def)
  have r: "resolve_record L st c = Inr st'"
    using m pk by (simp add: resolve_record_def Let_def up)
  have i1: "distinct (map fst (records st'))"
    using inv fresh by (auto simp: st'_def resolver_inv_def)
  have i2: "distinct (map fst (key_to_record st'))"
    using inv by (simp add: st'_def resolver_inv_def fold_update_distinct)
  have i3: "snd ` set (key_to_record st') \<subseteq> record_ids st'"
    using inv fold_update_owners[of ?n "dedup_keys L c" "key_to_record st"]
    by (auto simp: st'_def resolver_inv_def record_ids_def)
  have i4: "\<forall>i \<in> record_ids st'. i < next_record_id st'"
    using inv by (auto simp: st'_def resolver_inv_def record_ids_def)
  have "resolver_inv st'" using i1 i2 i3 i4 by (simp add: resolver_inv_def)
  then show ?thesis using r by (auto simp: st'_def fold_update_map_of)
qed

lemma resolve_record_merge:
  assumes inv: "resolver_inv st" and m: "matched_ids st (dedup_keys L c) \<noteq> []"
  defines "M \<equiv> set (matched_ids st (dedup_keys L c))"
  defines "rid \<equiv> Min M"
  defines "others \<equiv> filter (\<lambda>i. i \<noteq> rid) (sort (matched_ids st (dedup_keys L c)))"
  defines "merged \<equiv> merge_papers L
      (foldl (merge_papers L) (the (map_of (records st) rid))
         (map (\<lambda>i. the (map_of (records st) i)) others)) c"
  shows "\<exists>st'. resolve_record L st c = Inr st' \<and> resolver_inv st'
     \<and> rid \<in> M \<and> M \<subseteq> record_ids st
     \<and> sorted others \<and> distinct others \<and> set others = M - {rid}
     \<and> record_ids st' = record_ids st - (M - {rid})
     \<and> map_of (records st') rid = Some merged
     \<and> (\<forall>i. i \<notin> M \<longrightarrow> map_of (records st') i = map_of (records st) i)
     \<and> next_record_id st' = next_record_id st
     \<and> (\<forall>k. map_of (key_to_record st') k
              = (if k \<in> set (dedup_keys L merged) then Some rid
                 else map_option (\<lambda>owner. if owner \<in> M then rid else owner)
                        (map_of (key_to_record st) k)))"
proof -
  let ?ms = "matched_ids st (dedup_keys L c)"
  have Mne: "M \<noteq> {}" "finite M" using m by (auto simp: M_def)
  then have ridM: "rid \<in> M" unfolding rid_def by (simp add: Min_in)
  have Msub: "M \<subseteq> record_ids st" by (auto simp: M_def set_matched_ids)
  have d: "distinct (map fst (records st))" using inv by (simp add: resolver_inv_def)
  have so: "set (sort ?ms) \<subseteq> record_ids st" "distinct (sort ?ms)"
    using Msub by (auto simp: M_def distinct_matched_ids)
  from absorb_others_spec[OF d _ so, of rid L] ridM Msub
  obtain st1 where st1:
      "absorb_others L rid (sort ?ms) st = Inr st1"
      "distinct (map fst (records st1))"
      "record_ids st1 = record_ids st - (set (sort ?ms) - {rid})"
      "\<forall>i. i \<noteq> rid \<longrightarrow> i \<notin> set (sort ?ms) \<longrightarrow> map_of (records st1) i = map_of (records st) i"
      "map_of (records st1) rid
          = Some (foldl (merge_papers L) (the (map_of (records st) rid))
                    (map (\<lambda>i. the (map_of (records st) i)) others))"
      "key_to_record st1
          = map (\<lambda>(k, owner). (k, if owner \<in> set (sort ?ms) then rid else owner)) (key_to_record st)"
      "next_record_id st1 = next_record_id st"
    unfolding others_def by blast
  let ?t = "foldl (merge_papers L) (the (map_of (records st) rid))
                    (map (\<lambda>i. the (map_of (records st) i)) others)"
  define st2 where "st2 = st1 \<lparr> records := AList.update rid merged (records st1) \<rparr>"
  define st' where "st' = st2 \<lparr> key_to_record :=
      fold (\<lambda>key m. AList.update key rid m) (dedup_keys L merged) (key_to_record st2) \<rparr>"
  have look2: "map_of (records st2) rid = Some merged" by (simp add: st2_def update_conv')
  have r: "resolve_record L st c = Inr st'"
    using m st1(1,5) look2
    by (simp add: resolve_record_def Let_def M_def[symmetric] rid_def[symmetric]
        merged_def[symmetric] point_keys_def st2_def[symmetric] st'_def)
  have ids': "record_ids st' = record_ids st - (M - {rid})"
    using st1(3) ridM Msub by (auto simp: st'_def st2_def record_ids_def dom_update M_def)
  have i1: "distinct (map fst (records st'))"
    using st1(2) by (simp add: st'_def st2_def distinct_update)
  have i2: "distinct (map fst (key_to_record st'))"
    using inv by (simp add: st'_def st2_def st1(6) resolver_inv_def fold_update_distinct comp_def case_prod_unfold)
  have own1: "snd ` set (key_to_record st1) \<subseteq> record_ids st - (M - {rid})"
    using inv ridM Msub unfolding st1(6) by (force simp: resolver_inv_def M_def)
  have k': "key_to_record st'
      = fold (\<lambda>key m. AList.update key rid m) (dedup_keys L merged) (key_to_record st1)"
    by (simp add: st'_def st2_def)
  have "rid \<in> record_ids st - (M - {rid})" using ridM Msub by auto
  then have i3: "snd ` set (key_to_record st') \<subseteq> record_ids st'"
    using own1 fold_update_owners[of rid "dedup_keys L merged" "key_to_record st1"]
    unfolding k' ids' by blast
  have i4: "\<forall>i \<in> record_ids st'. i < next_record_id st'"
    using inv ids' st1(7) by (auto simp: st'_def st2_def resolver_inv_def)
  have inv': "resolver_inv st'" using i1 i2 i3 i4 by (simp add: resolver_inv_def)
  have "sorted (map (\<lambda>x. x) (filter (\<lambda>i. i \<noteq> rid) (sort ?ms)))"
    by (rule sorted_filter) simp
  then have oth: "sorted others" "distinct others" "set others = M - {rid}"
    by (auto simp: others_def M_def distinct_matched_ids)
  have recs: "\<forall>i. i \<notin> M \<longrightarrow> map_of (records st') i = map_of (records st) i"
    using st1(4) ridM by (auto simp: st'_def st2_def update_conv' M_def)
  have keys: "\<forall>k. map_of (key_to_record st') k
              = (if k \<in> set (dedup_keys L merged) then Some rid
                 else map_option (\<lambda>owner. if owner \<in> M then rid else owner)
                        (map_of (key_to_record st) k))"
    by (simp add: st'_def st2_def fold_update_map_of st1(6) map_of_map M_def)
  have "map_of (records st') rid = Some merged" using look2 by (simp add: st'_def)
  moreover have "next_record_id st' = next_record_id st" using st1(7) by (simp add: st'_def st2_def)
  ultimately show ?thesis using r inv' ridM Msub oth ids' recs keys by blast
qed



lemma dedup_keys_nonempty: "dedup_keys L p \<noteq> []"
  by (simp add: dedup_keys_def Let_def)

lemma initial_resolver_inv: "resolver_inv initial_resolver"
  by (simp add: resolver_inv_def initial_resolver_def record_ids_def)

lemma resolve_record_inv:
  assumes "resolver_inv st"
  shows "\<exists>st'. resolve_record L st c = Inr st' \<and> resolver_inv st'"
proof (cases "matched_ids st (dedup_keys L c) = []")
  case True
  from resolve_record_new[OF assms True] show ?thesis by blast
next
  case False
  from resolve_record_merge[OF assms False] show ?thesis by blast
qed

lemma resolve_all_inv:
  "resolver_inv st \<Longrightarrow> \<exists>st'. resolve_all L st cs = Inr st' \<and> resolver_inv st'"
proof (induction cs arbitrary: st)
  case Nil
  then show ?case by simp
next
  case (Cons c cs)
  from resolve_record_inv[OF Cons.prems, of L c] obtain st1 where
    s: "resolve_record L st c = Inr st1" "resolver_inv st1" by blast
  from Cons.IH[OF s(2)] s(1) show ?case by simp
qed

lemma single_record:
  assumes "distinct (map fst al)" "fst ` set al = {i}" "map_of al i = Some r"
  shows "al = [(i, r)]"
proof (cases al)
  case Nil
  with assms show ?thesis by simp
next
  case (Cons x xs)
  with assms(2) have fx: "fst x = i" by auto
  have "xs = []"
  proof (rule ccontr)
    assume "xs \<noteq> []"
    then obtain y ys where "xs = y # ys" by (cases xs) auto
    with Cons assms(2) have "fst y = i" by auto
    with Cons \<open>xs = y # ys\<close> fx assms(1) show False by auto
  qed
  with Cons fx assms(3) show ?thesis by (cases x) auto
qed

lemma better_text_same: "better_text x x = x"
  by (simp add: better_text_def)

lemma first_write_same: "first_write x x = x"
  by (simp add: first_write_def)

lemma append_unique_known: "set vs \<subseteq> insert [] (set items) \<Longrightarrow> append_unique items vs = items"
  by (induction vs) auto

lemma append_unique_same: "append_unique items items = items"
  by (rule append_unique_known) auto

lemma setdefault_all_known:
  "fst ` set inc \<subseteq> fst ` set m \<Longrightarrow> setdefault_all m inc = m"
  unfolding setdefault_all_def
  by (induction inc) (auto simp: case_prod_unfold)

lemma coerce_year_idem: "coerce_year (coerce_year y) = coerce_year y"
  by (auto simp: coerce_year_def split: option.splits)

lemma merge_year_same: "coerce_year y = y \<Longrightarrow> merge_year y y = y"
  by (cases y) (auto simp: merge_year_def coerce_year_def Let_def split: if_splits)

lemma canonicalize_canonical_form:
  "canonicalize_raw_paper L raw = Some c \<Longrightarrow> canonical_form L c"
  by (auto simp: canonicalize_raw_paper_def canonical_form_def Let_def coerce_year_idem
      split: if_splits)

lemma merge_papers_same: "canonical_form L c \<Longrightarrow> merge_papers L c c = c"
  by (simp add: merge_papers_def canonical_form_def Let_def better_text_same first_write_same
      append_unique_same setdefault_all_known merge_year_same or_empty_def)

lemma resolve_first:
  "\<exists>st1. resolve_record L initial_resolver c = Inr st1 \<and> resolver_inv st1
     \<and> records st1 = [(1, c)] \<and> next_record_id st1 = 2
     \<and> (\<forall>k. map_of (key_to_record st1) k = (if k \<in> set (dedup_keys L c) then Some 1 else None))"
proof -
  have m: "matched_ids initial_resolver (dedup_keys L c) = []"
    using set_matched_ids[of initial_resolver "dedup_keys L c"]
    by (simp add: initial_resolver_def)
  from resolve_record_new[OF initial_resolver_inv m]
  show ?thesis by (auto simp: initial_resolver_def)
qed

lemma resolve_same_again:
  assumes inv: "resolver_inv st" and recs: "records st = [(i, c)]" and cf: "canonical_form L c"
    and keys: "\<forall>k \<in> set (dedup_keys L c). map_of (key_to_record st) k = Some i"
  shows "\<exists>st'. resolve_record L st c = Inr st' \<and> records st' = [(i, c)]"
proof -
  have ids: "record_ids st = {i}" using recs by (simp add: record_ids_def)
  obtain k where k: "k \<in> set (dedup_keys L c)"
    using dedup_keys_nonempty[of L c] by (cases "dedup_keys L c") auto
  have M: "set (matched_ids st (dedup_keys L c)) = {i}"
  proof
    show "set (matched_ids st (dedup_keys L c)) \<subseteq> {i}"
      using ids by (auto simp: set_matched_ids)
    have "i \<in> set (matched_ids st (dedup_keys L c))"
      unfolding set_matched_ids using keys k ids by blast
    then show "{i} \<subseteq> set (matched_ids st (dedup_keys L c))" by simp
  qed
  then have ne: "matched_ids st (dedup_keys L c) \<noteq> []" by auto
  have look: "map_of (records st) i = Some c" using recs by simp
  from resolve_record_merge[OF inv ne, unfolded M] obtain st' where st':
    "resolve_record L st c = Inr st'" "resolver_inv st'"
    "record_ids st' = record_ids st - ({i} - {Min {i}})"
    "set (filter (\<lambda>j. j \<noteq> Min {i}) (sort (matched_ids st (dedup_keys L c)))) = {i} - {Min {i}}"
    "map_of (records st') (Min {i}) = Some (merge_papers L
      (foldl (merge_papers L) (the (map_of (records st) (Min {i})))
         (map (\<lambda>i. the (map_of (records st) i))
           (filter (\<lambda>j. j \<noteq> Min {i}) (sort (matched_ids st (dedup_keys L c)))))) c)"
    by blast
  from st'(4) have e: "filter (\<lambda>j. j \<noteq> Min {i}) (sort (matched_ids st (dedup_keys L c))) = []"
    by simp
  have r: "map_of (records st') i = Some c"
    using st'(5) look cf unfolding e by (simp add: merge_papers_same)
  have "records st' = [(i, c)]"
    using st'(2,3) ids r by (intro single_record) (auto simp: resolver_inv_def record_ids_def)
  with st'(1) show ?thesis by blast
qed

lemma deduplicate_twice:
  assumes "canonicalize_raw_paper L R = Some c"
  shows "deduplicate_papers L [R, R] = Inr [finalize L c]
       \<and> deduplicate_papers L [R] = Inr [finalize L c]"
proof -
  from resolve_first[of L c] obtain st1 where st1:
    "resolve_record L initial_resolver c = Inr st1" "resolver_inv st1" "records st1 = [(1, c)]"
    "\<forall>k. map_of (key_to_record st1) k = (if k \<in> set (dedup_keys L c) then Some 1 else None)"
    by blast
  have cf: "canonical_form L c" using assms by (rule canonicalize_canonical_form)
  from resolve_same_again[OF st1(2,3) cf] st1(4) obtain st2 where st2:
    "resolve_record L st1 c = Inr st2" "records st2 = [(1, c)]" by auto
  show ?thesis
    using assms st1(1,3) st2 by (simp add: deduplicate_papers_def emit_def)
qed


section \<open>Idempotence and the key index\<close>


lemma resolve_all_append:
  "resolve_all L st (xs @ ys)
     = (case resolve_all L st xs of Inl e \<Rightarrow> Inl e | Inr st1 \<Rightarrow> resolve_all L st1 ys)"
  by (induction xs arbitrary: st) (auto split: sum.splits)

text \<open>
  Claim C5. Resolving the same raw record twice yields exactly one cluster, and it is the
  cluster that resolving the record once yields: for a raw record \<open>R\<close> with canonical form
  \<open>c\<close>, both \<open>deduplicate_papers [R, R]\<close> and \<open>deduplicate_papers [R]\<close> return the one-element
  catalog that holds \<open>c\<close> as it is written out.
\<close>

theorem resolving_twice_is_idempotent:
  "canonicalize_raw_paper L R = Some c \<Longrightarrow>
     deduplicate_papers L [R, R] = Inr [finalize L c]
     \<and> deduplicate_papers L [R] = Inr [finalize L c]
     \<and> length [finalize L c] = 1"
  using deduplicate_twice[of L R c] by simp

theorem resolving_twice_is_idempotent_witness:
  "canonicalize_raw_paper plain_lib (example_raw ''Deep Nets'' (Some ''doi:10.1/AB'') None (Some 2020))
     = Some (example_paper ''Deep Nets'' (Some ''10.1/ab'') None (Some 2020))
   \<and> deduplicate_papers plain_lib
        [example_raw ''Deep Nets'' (Some ''doi:10.1/AB'') None (Some 2020),
         example_raw ''Deep Nets'' (Some ''doi:10.1/AB'') None (Some 2020)]
      = Inr [finalize plain_lib (example_paper ''Deep Nets'' (Some ''10.1/ab'') None (Some 2020))]
   \<and> deduplicate_papers plain_lib
        [example_raw ''Deep Nets'' (Some ''doi:10.1/AB'') None (Some 2020)]
      = Inr [finalize plain_lib (example_paper ''Deep Nets'' (Some ''10.1/ab'') None (Some 2020))]"
proof -
  have h: "canonicalize_raw_paper plain_lib
      (example_raw ''Deep Nets'' (Some ''doi:10.1/AB'') None (Some 2020))
     = Some (example_paper ''Deep Nets'' (Some ''10.1/ab'') None (Some 2020))"
    by code_simp
  from resolving_twice_is_idempotent[OF h] h show ?thesis by simp
qed

text \<open>
  Claim C3. After every record that \<open>deduplicate_papers\<close> has fully processed, every entry of
  the key index points to a cluster id that is stored in the records map: this holds of the
  state after every prefix of the input, and the loop never raises. One step from a
  consistent state rewrites every key entry owned by a matched cluster to the surviving
  (smallest matched) id, and an absorbed id is no longer stored.
\<close>

theorem key_index_points_to_stored_clusters:
  "(\<forall>n. \<exists>st. resolve_all L initial_resolver
                 (List.map_filter (canonicalize_raw_paper L) (take n raw_papers)) = Inr st
             \<and> resolver_inv st
             \<and> (\<forall>(k, owner) \<in> set (key_to_record st). owner \<in> record_ids st))
   \<and> (\<forall>st c. resolver_inv st \<longrightarrow>
         (\<exists>st'. resolve_record L st c = Inr st' \<and> resolver_inv st'
            \<and> (\<forall>(k, owner) \<in> set (key_to_record st'). owner \<in> record_ids st')
            \<and> (\<forall>k owner. map_of (key_to_record st) k = Some owner
                   \<and> owner \<in> set (matched_ids st (dedup_keys L c))
                 \<longrightarrow> map_of (key_to_record st') k
                       = Some (Min (set (matched_ids st (dedup_keys L c))))
                     \<and> (owner \<noteq> Min (set (matched_ids st (dedup_keys L c)))
                          \<longrightarrow> owner \<notin> record_ids st'))))"
proof (intro conjI allI impI)
  fix n
  from resolve_all_inv[OF initial_resolver_inv] obtain st where
    "resolve_all L initial_resolver
       (List.map_filter (canonicalize_raw_paper L) (take n raw_papers)) = Inr st"
    "resolver_inv st" by blast
  moreover from this have "\<forall>(k, owner) \<in> set (key_to_record st). owner \<in> record_ids st"
    by (force simp: resolver_inv_def)
  ultimately show "\<exists>st. resolve_all L initial_resolver
                 (List.map_filter (canonicalize_raw_paper L) (take n raw_papers)) = Inr st
             \<and> resolver_inv st
             \<and> (\<forall>(k, owner) \<in> set (key_to_record st). owner \<in> record_ids st)" by blast
next
  fix st c
  assume inv: "resolver_inv st"
  let ?M = "set (matched_ids st (dedup_keys L c))"
  show "\<exists>st'. resolve_record L st c = Inr st' \<and> resolver_inv st'
            \<and> (\<forall>(k, owner) \<in> set (key_to_record st'). owner \<in> record_ids st')
            \<and> (\<forall>k owner. map_of (key_to_record st) k = Some owner \<and> owner \<in> ?M
                 \<longrightarrow> map_of (key_to_record st') k = Some (Min ?M)
                     \<and> (owner \<noteq> Min ?M \<longrightarrow> owner \<notin> record_ids st'))"
  proof (cases "matched_ids st (dedup_keys L c) = []")
    case True
    from resolve_record_new[OF inv True] obtain st' where
      "resolve_record L st c = Inr st'" "resolver_inv st'" by blast
    moreover from this have "\<forall>(k, owner) \<in> set (key_to_record st'). owner \<in> record_ids st'"
      by (force simp: resolver_inv_def)
    ultimately show ?thesis using True by auto
  next
    case False
    from resolve_record_merge[OF inv False] obtain st' where st':
      "resolve_record L st c = Inr st'" "resolver_inv st'"
      "record_ids st' = record_ids st - (?M - {Min ?M})"
      "\<forall>k. map_of (key_to_record st') k
              = (if k \<in> set (dedup_keys L (the (map_of (records st') (Min ?M)))) then Some (Min ?M)
                 else map_option (\<lambda>owner. if owner \<in> ?M then Min ?M else owner)
                        (map_of (key_to_record st) k))"
      by (metis (no_types, lifting) option.sel)
    from st'(2) have "\<forall>(k, owner) \<in> set (key_to_record st'). owner \<in> record_ids st'"
      by (force simp: resolver_inv_def)
    moreover have "\<forall>k owner. map_of (key_to_record st) k = Some owner \<and> owner \<in> ?M
                 \<longrightarrow> map_of (key_to_record st') k = Some (Min ?M)
                     \<and> (owner \<noteq> Min ?M \<longrightarrow> owner \<notin> record_ids st')"
      using st'(3,4) by auto
    ultimately show ?thesis using st'(1,2) by blast
  qed
qed


section \<open>Bridging\<close>


theorem key_index_points_to_stored_clusters_witness:
  "resolve_all plain_lib initial_resolver
     (List.map_filter (canonicalize_raw_paper plain_lib)
        (take 2 [example_raw ''Deep Nets'' (Some ''10.1/ab'') None None,
                 example_raw ''Wide Nets!'' None (Some ''2301.00001'') None,
                 example_raw ''Nets'' (Some ''10.1/ab'') (Some ''2301.00001'') None]))
     = Inr example_state
   \<and> resolver_inv example_state
   \<and> map_of (key_to_record example_state) (''arxiv'', ''2301.00001'') = Some 2
   \<and> 2 \<in> set (matched_ids example_state
                (dedup_keys plain_lib
                   (example_paper ''Nets'' (Some ''10.1/ab'') (Some ''2301.00001'') None)))
   \<and> (\<exists>st'. resolve_record plain_lib example_state
               (example_paper ''Nets'' (Some ''10.1/ab'') (Some ''2301.00001'') None) = Inr st'
          \<and> map_of (key_to_record st') (''arxiv'', ''2301.00001'') = Some 1
          \<and> 2 \<notin> record_ids st')"
proof -
  let ?c = "example_paper ''Nets'' (Some ''10.1/ab'') (Some ''2301.00001'') None"
  have a: "resolve_all plain_lib initial_resolver
     (List.map_filter (canonicalize_raw_paper plain_lib)
        (take 2 [example_raw ''Deep Nets'' (Some ''10.1/ab'') None None,
                 example_raw ''Wide Nets!'' None (Some ''2301.00001'') None,
                 example_raw ''Nets'' (Some ''10.1/ab'') (Some ''2301.00001'') None]))
     = Inr example_state" by code_simp
  have i: "resolver_inv example_state" by code_simp
  have k: "map_of (key_to_record example_state) (''arxiv'', ''2301.00001'') = Some 2"
    by code_simp
  have m: "2 \<in> set (matched_ids example_state (dedup_keys plain_lib ?c))" by code_simp
  have mn: "Min (set (matched_ids example_state (dedup_keys plain_lib ?c))) = 1" by code_simp
  from key_index_points_to_stored_clusters[of plain_lib "[]"] i
  obtain st' where st': "resolve_record plain_lib example_state ?c = Inr st'"
    "\<forall>k owner. map_of (key_to_record example_state) k = Some owner
                   \<and> owner \<in> set (matched_ids example_state (dedup_keys plain_lib ?c))
                 \<longrightarrow> map_of (key_to_record st') k
                       = Some (Min (set (matched_ids example_state (dedup_keys plain_lib ?c))))
                     \<and> (owner \<noteq> Min (set (matched_ids example_state (dedup_keys plain_lib ?c)))
                          \<longrightarrow> owner \<notin> record_ids st')"
    by blast
  from st'(2) k m have "map_of (key_to_record st') (''arxiv'', ''2301.00001'') = Some 1
      \<and> 2 \<notin> record_ids st'"
    unfolding mn by fastforce
  with st'(1) a i k m show ?thesis by blast
qed

lemma dedup_keys_mem:
  "k \<in> set (dedup_keys L p) \<longleftrightarrow>
     (truthy (doi p) \<and> k = (''doi'', or_empty (doi p)))
     \<or> (truthy (arxiv_id p) \<and> k = (''arxiv'', or_empty (arxiv_id p)))
     \<or> (truthy (title_norm p) \<and> k = (''title'', or_empty (title_norm p)))
     \<or> (\<not> truthy (doi p) \<and> \<not> truthy (arxiv_id p) \<and> \<not> truthy (title_norm p)
         \<and> k = (''fallback'',
                 sha1_hexdigest L
                   (title p @ ''|'' @ (case url p of None \<Rightarrow> ''None'' | Some u \<Rightarrow> u) @ ''|''
                    @ repr_list L (sources p))))"
  by (auto simp: dedup_keys_def Let_def)

lemma merge_papers_doi: "doi (merge_papers L t i) = first_write (doi t) (doi i)"
  by (simp add: merge_papers_def Let_def)

lemma merge_papers_arxiv_id: "arxiv_id (merge_papers L t i) = first_write (arxiv_id t) (arxiv_id i)"
  by (simp add: merge_papers_def Let_def)

lemma finalize_ids: "doi (finalize L p) = doi p" "arxiv_id (finalize L p) = arxiv_id p"
  by (simp_all add: finalize_def)

lemma normalize_arxiv_id_result: "normalize_arxiv_id L raw = Some x \<Longrightarrow> x \<noteq> []"
  by (auto simp: normalize_arxiv_id_def Let_def split: option.splits if_splits)

lemma canonical_doi_nonempty:
  "canonicalize_raw_paper L raw = Some c \<Longrightarrow> doi c = Some D \<Longrightarrow> D \<noteq> []"
  using normalize_doi_result[of "raw_doi raw" D]
  by (auto simp: canonicalize_raw_paper_def Let_def split: if_splits)

lemma canonical_arxiv_nonempty:
  "canonicalize_raw_paper L raw = Some c \<Longrightarrow> arxiv_id c = Some X \<Longrightarrow> X \<noteq> []"
  using normalize_arxiv_id_result[of L "raw_arxiv_id raw" X]
    normalize_arxiv_id_result[of L "Some (or_empty (raw_url raw))" X]
  by (auto simp: canonicalize_raw_paper_def Let_def extract_arxiv_id_def split: if_splits)


lemma first_write_keep: "truthy t \<Longrightarrow> first_write t i = t"
  by (simp add: first_write_def)

lemma first_write_fill: "\<not> truthy t \<Longrightarrow> truthy i \<Longrightarrow> first_write t i = i"
  by (simp add: first_write_def)

lemma bridging_resolve:
  assumes a: "doi a = Some D" "\<not> truthy (arxiv_id a)"
    and b: "\<not> truthy (doi b)" "arxiv_id b = Some X"
    and c: "doi c = Some D" "arxiv_id c = Some X"
    and ne: "D \<noteq> []" "X \<noteq> []"
    and t: "\<not> truthy (title_norm a) \<or> title_norm a \<noteq> title_norm b"
  shows "\<exists>st. resolve_all L initial_resolver [a, b, c] = Inr st
     \<and> records st = [(1, merge_papers L (merge_papers L a b) c)]"
proof -
  have ta: "truthy (doi a)" and tb: "truthy (arxiv_id b)"
    and tc: "truthy (doi c)" "truthy (arxiv_id c)"
    using a b c ne by (simp_all add: truthy_def)
  from resolve_first[of L a] obtain st1 where st1:
    "resolve_record L initial_resolver a = Inr st1" "resolver_inv st1" "records st1 = [(1, a)]"
    "next_record_id st1 = 2"
    "\<forall>k. map_of (key_to_record st1) k = (if k \<in> set (dedup_keys L a) then Some 1 else None)"
    by blast
  have disj: "\<forall>k \<in> set (dedup_keys L b). k \<notin> set (dedup_keys L a)"
    using ta tb a b t by (auto simp: dedup_keys_mem or_empty_def truthy_def split: option.splits)
  have m2: "matched_ids st1 (dedup_keys L b) = []"
    using set_matched_ids[of st1 "dedup_keys L b"] st1(5) disj by auto
  from resolve_record_new[OF st1(2) m2] obtain st2 where st2:
    "resolve_record L st1 b = Inr st2" "resolver_inv st2"
    "records st2 = [(1, a), (2, b)]"
    "\<forall>k. map_of (key_to_record st2) k
              = (if k \<in> set (dedup_keys L b) then Some 2 else map_of (key_to_record st1) k)"
    using st1(3,4) by auto
  have ids2: "record_ids st2 = {1, 2}" using st2(3) by (auto simp: record_ids_def)
  have kd: "(''doi'', D) \<in> set (dedup_keys L c)" "(''arxiv'', X) \<in> set (dedup_keys L c)"
    using tc c by (auto simp: dedup_keys_mem or_empty_def)
  have d1: "map_of (key_to_record st2) (''doi'', D) = Some 1"
    using st2(4) st1(5) ta a b by (auto simp: dedup_keys_mem or_empty_def)
  have x2: "map_of (key_to_record st2) (''arxiv'', X) = Some 2"
    using st2(4) tb b by (auto simp: dedup_keys_mem or_empty_def)
  let ?ms = "matched_ids st2 (dedup_keys L c)"
  have M: "set ?ms = {1, 2}"
  proof
    show "set ?ms \<subseteq> {1, 2}" using ids2 by (auto simp: set_matched_ids)
    have "1 \<in> set ?ms" unfolding set_matched_ids using kd(1) d1 ids2 by blast
    moreover have "2 \<in> set ?ms" unfolding set_matched_ids using kd(2) x2 ids2 by blast
    ultimately show "{1, 2} \<subseteq> set ?ms" by simp
  qed
  then have mne: "?ms \<noteq> []" by auto
  have mn: "Min {1, 2::nat} = 1" by simp
  define others where "others = filter (\<lambda>i. i \<noteq> Min (set ?ms)) (sort ?ms)"
  from resolve_record_merge[OF st2(2) mne, folded others_def] obtain st3 where st3:
    "resolve_record L st2 c = Inr st3" "resolver_inv st3"
    "sorted others" "distinct others"
    "set others = set ?ms - {Min (set ?ms)}"
    "record_ids st3 = record_ids st2 - (set ?ms - {Min (set ?ms)})"
    "map_of (records st3) (Min (set ?ms)) = Some (merge_papers L
      (foldl (merge_papers L) (the (map_of (records st2) (Min (set ?ms))))
         (map (\<lambda>i. the (map_of (records st2) i)) others)) c)"
    by blast
  have "set others = {2}" using st3(5) by (simp add: M)
  then have "others = [2]"
    using st3(3,4) by (intro sorted_distinct_set_unique) auto
  then have r: "map_of (records st3) 1 = Some (merge_papers L (merge_papers L a b) c)"
    using st3(7) st2(3) by (simp add: M)
  have "{1, 2} - ({1, 2} - {Min {1, 2::nat}}) = {1::nat}" unfolding mn by auto
  then have i3: "record_ids st3 = {1}" unfolding st3(6) ids2 M by simp
  have d3: "distinct (map fst (records st3))" using st3(2) by (simp add: resolver_inv_def)
  have f3: "fst ` set (records st3) = {1}" using i3 by (simp add: record_ids_def)
  have "records st3 = [(1, merge_papers L (merge_papers L a b) c)]"
    using d3 f3 r by (rule single_record)
  then show ?thesis using st1(1) st2(1) st3(1) by simp
qed

text \<open>
  Claim C1. Bridging: for raw records \<open>A\<close> (DOI \<open>D\<close>, no arXiv id), \<open>B\<close> (arXiv id \<open>X\<close>, no
  DOI) and \<open>C\<close> (DOI \<open>D\<close> and arXiv id \<open>X\<close>) with pairwise distinct normalized titles,
  \<open>deduplicate_papers [A, B, C]\<close> returns exactly one cluster, and it has DOI \<open>D\<close> and arXiv
  id \<open>X\<close>. In general, when the keys of a record match stored clusters, the smallest matched
  id survives: the other matched clusters, in ascending order of their ids, are merged into
  it and removed, and the record is merged last.
\<close>

theorem bridging_yields_one_cluster:
  "(canonicalize_raw_paper L A = Some a \<and> canonicalize_raw_paper L B = Some b
      \<and> canonicalize_raw_paper L C = Some c
      \<and> doi a = Some D \<and> \<not> truthy (arxiv_id a)
      \<and> \<not> truthy (doi b) \<and> arxiv_id b = Some X
      \<and> doi c = Some D \<and> arxiv_id c = Some X
      \<and> title_norm a \<noteq> title_norm b \<and> title_norm a \<noteq> title_norm c
      \<and> title_norm b \<noteq> title_norm c
    \<longrightarrow> (\<exists>p. deduplicate_papers L [A, B, C] = Inr [p] \<and> doi p = Some D \<and> arxiv_id p = Some X))
   \<and> (\<forall>st r. resolver_inv st \<and> matched_ids st (dedup_keys L r) \<noteq> [] \<longrightarrow>
         (\<exists>st' others.
            resolve_record L st r = Inr st'
            \<and> sorted others \<and> distinct others
            \<and> set others = set (matched_ids st (dedup_keys L r))
                             - {Min (set (matched_ids st (dedup_keys L r)))}
            \<and> record_ids st' = record_ids st - set others
            \<and> map_of (records st') (Min (set (matched_ids st (dedup_keys L r))))
                = Some (merge_papers L
                          (foldl (merge_papers L)
                             (the (map_of (records st)
                                     (Min (set (matched_ids st (dedup_keys L r))))))
                             (map (\<lambda>i. the (map_of (records st) i)) others))
                          r)))"
proof (intro conjI allI impI)
  assume h: "canonicalize_raw_paper L A = Some a \<and> canonicalize_raw_paper L B = Some b
      \<and> canonicalize_raw_paper L C = Some c
      \<and> doi a = Some D \<and> \<not> truthy (arxiv_id a)
      \<and> \<not> truthy (doi b) \<and> arxiv_id b = Some X
      \<and> doi c = Some D \<and> arxiv_id c = Some X
      \<and> title_norm a \<noteq> title_norm b \<and> title_norm a \<noteq> title_norm c
      \<and> title_norm b \<noteq> title_norm c"
  then have D: "D \<noteq> []" using canonical_doi_nonempty[of L A a D] by simp
  from h have X: "X \<noteq> []" using canonical_arxiv_nonempty[of L B b X] by simp
  from h D X bridging_resolve[of a D b X c L] obtain st where st:
    "resolve_all L initial_resolver [a, b, c] = Inr st"
    "records st = [(1, merge_papers L (merge_papers L a b) c)]" by blast
  let ?p = "finalize L (merge_papers L (merge_papers L a b) c)"
  have out: "deduplicate_papers L [A, B, C] = Inr [?p]"
    using h st by (simp add: deduplicate_papers_def emit_def)
  have "doi ?p = Some D"
    using h D by (simp add: finalize_ids merge_papers_doi first_write_keep truthy_def)
  moreover have "arxiv_id ?p = Some X"
    using h X
    by (simp add: finalize_ids merge_papers_arxiv_id first_write_keep first_write_fill truthy_def)
  ultimately show "\<exists>p. deduplicate_papers L [A, B, C] = Inr [p] \<and> doi p = Some D
      \<and> arxiv_id p = Some X" using out by blast
next
  fix st r
  assume h: "resolver_inv st \<and> matched_ids st (dedup_keys L r) \<noteq> []"
  let ?M = "set (matched_ids st (dedup_keys L r))"
  let ?others = "filter (\<lambda>i. i \<noteq> Min ?M) (sort (matched_ids st (dedup_keys L r)))"
  from h resolve_record_merge[of st L r] obtain st' where st':
    "resolve_record L st r = Inr st'"
    "sorted ?others" "distinct ?others" "set ?others = ?M - {Min ?M}"
    "record_ids st' = record_ids st - (?M - {Min ?M})"
    "map_of (records st') (Min ?M) = Some (merge_papers L
      (foldl (merge_papers L) (the (map_of (records st) (Min ?M)))
         (map (\<lambda>i. the (map_of (records st) i)) ?others)) r)"
    by blast
  show "\<exists>st' others.
            resolve_record L st r = Inr st'
            \<and> sorted others \<and> distinct others
            \<and> set others = ?M - {Min ?M}
            \<and> record_ids st' = record_ids st - set others
            \<and> map_of (records st') (Min ?M)
                = Some (merge_papers L
                          (foldl (merge_papers L) (the (map_of (records st) (Min ?M)))
                             (map (\<lambda>i. the (map_of (records st) i)) others))
                          r)"
    using st' by (intro exI[of _ st'] exI[of _ ?others]) simp
qed



theorem bridging_yields_one_cluster_witness:
  "canonicalize_raw_paper plain_lib (example_raw ''Deep Nets'' (Some ''10.1/ab'') None None)
     = Some (example_paper ''Deep Nets'' (Some ''10.1/ab'') None None)
   \<and> canonicalize_raw_paper plain_lib (example_raw ''Wide Nets!'' None (Some ''2301.00001'') None)
     = Some (example_paper ''Wide Nets!'' None (Some ''2301.00001'') None)
   \<and> canonicalize_raw_paper plain_lib
        (example_raw ''Nets'' (Some ''10.1/ab'') (Some ''2301.00001'') None)
     = Some (example_paper ''Nets'' (Some ''10.1/ab'') (Some ''2301.00001'') None)
   \<and> title_norm (example_paper ''Deep Nets'' (Some ''10.1/ab'') None None)
       \<noteq> title_norm (example_paper ''Wide Nets!'' None (Some ''2301.00001'') None)
   \<and> title_norm (example_paper ''Deep Nets'' (Some ''10.1/ab'') None None)
       \<noteq> title_norm (example_paper ''Nets'' (Some ''10.1/ab'') (Some ''2301.00001'') None)
   \<and> title_norm (example_paper ''Wide Nets!'' None (Some ''2301.00001'') None)
       \<noteq> title_norm (example_paper ''Nets'' (Some ''10.1/ab'') (Some ''2301.00001'') None)
   \<and> (\<exists>p. deduplicate_papers plain_lib
              [example_raw ''Deep Nets'' (Some ''10.1/ab'') None None,
               example_raw ''Wide Nets!'' None (Some ''2301.00001'') None,
               example_raw ''Nets'' (Some ''10.1/ab'') (Some ''2301.00001'') None] = Inr [p]
          \<and> doi p = Some ''10.1/ab'' \<and> arxiv_id p = Some ''2301.00001'')
   \<and> resolver_inv example_state
   \<and> matched_ids example_state
        (dedup_keys plain_lib (example_paper ''Nets'' (Some ''10.1/ab'') (Some ''2301.00001'') None))
       = [1, 2]
   \<and> (\<exists>st'. resolve_record plain_lib example_state
               (example_paper ''Nets'' (Some ''10.1/ab'') (Some ''2301.00001'') None) = Inr st'
          \<and> record_ids st' = {1}
          \<and> map_of (records st') 1
              = Some (merge_papers plain_lib
                        (merge_papers plain_lib
                           (example_paper ''Deep Nets'' (Some ''10.1/ab'') None None)
                           (example_paper ''Wide Nets!'' None (Some ''2301.00001'') None))
                        (example_paper ''Nets'' (Some ''10.1/ab'') (Some ''2301.00001'') None)))"
proof -
  let ?A = "example_raw ''Deep Nets'' (Some ''10.1/ab'') None None"
  let ?B = "example_raw ''Wide Nets!'' None (Some ''2301.00001'') None"
  let ?C = "example_raw ''Nets'' (Some ''10.1/ab'') (Some ''2301.00001'') None"
  let ?a = "example_paper ''Deep Nets'' (Some ''10.1/ab'') None None"
  let ?b = "example_paper ''Wide Nets!'' None (Some ''2301.00001'') None"
  let ?c = "example_paper ''Nets'' (Some ''10.1/ab'') (Some ''2301.00001'') None"
  have ca: "canonicalize_raw_paper plain_lib ?A = Some ?a" by code_simp
  have cb: "canonicalize_raw_paper plain_lib ?B = Some ?b" by code_simp
  have cc: "canonicalize_raw_paper plain_lib ?C = Some ?c" by code_simp
  have t1: "title_norm ?a \<noteq> title_norm ?b" by code_simp
  have t2: "title_norm ?a \<noteq> title_norm ?c" by code_simp
  have t3: "title_norm ?b \<noteq> title_norm ?c" by code_simp
  have f: "doi ?a = Some ''10.1/ab''" "\<not> truthy (arxiv_id ?a)" "\<not> truthy (doi ?b)"
    "arxiv_id ?b = Some ''2301.00001''" "doi ?c = Some ''10.1/ab''"
    "arxiv_id ?c = Some ''2301.00001''"
    by (simp_all add: example_paper_def truthy_def)
  have one: "\<exists>p. deduplicate_papers plain_lib [?A, ?B, ?C] = Inr [p]
      \<and> doi p = Some ''10.1/ab'' \<and> arxiv_id p = Some ''2301.00001''"
    using bridging_yields_one_cluster[of plain_lib ?A ?a ?B ?b ?C ?c "''10.1/ab''" "''2301.00001''"]
      ca cb cc t1 t2 t3 f by blast
  have i: "resolver_inv example_state" by code_simp
  have m: "matched_ids example_state (dedup_keys plain_lib ?c) = [1, 2]" by code_simp
  have l1: "map_of (records example_state) 1 = Some ?a" by (simp add: example_state_def)
  have l2: "map_of (records example_state) 2 = Some ?b" by (simp add: example_state_def)
  have ids: "record_ids example_state = {1, 2}"
    by (auto simp: example_state_def record_ids_def)
  have mne: "matched_ids example_state (dedup_keys plain_lib ?c) \<noteq> []" using m by simp
  from bridging_yields_one_cluster[of plain_lib ?A ?a ?B ?b ?C ?c "''10.1/ab''" "''2301.00001''",
      THEN conjunct2, rule_format, OF conjI[OF i mne]]
  obtain st' others where st': "resolve_record plain_lib example_state ?c = Inr st'"
    "sorted others" "distinct others"
    "set others = set (matched_ids example_state (dedup_keys plain_lib ?c))
                             - {Min (set (matched_ids example_state (dedup_keys plain_lib ?c)))}"
    "record_ids st' = record_ids example_state - set others"
    "map_of (records st') (Min (set (matched_ids example_state (dedup_keys plain_lib ?c))))
                = Some (merge_papers plain_lib
                          (foldl (merge_papers plain_lib)
                             (the (map_of (records example_state)
                                     (Min (set (matched_ids example_state (dedup_keys plain_lib ?c))))))
                             (map (\<lambda>i. the (map_of (records example_state) i)) others))
                          ?c)"
    by blast
  have mn: "Min (set [1, 2::nat]) = 1" by simp
  have "set others = {2}" using st'(4) unfolding m mn by auto
  then have o: "others = [2]" using st'(2,3) by (intro sorted_distinct_set_unique) auto
  have e: "{1, 2} - set [2::nat] = {1::nat}" by auto
  have r1: "record_ids st' = {1}" using st'(5) by (simp only: ids o e)
  have r2: "map_of (records st') 1
      = Some (merge_papers plain_lib (merge_papers plain_lib ?a ?b) ?c)"
    using st'(6) by (simp only: m mn o l1 l2 list.map foldl.simps option.sel)
  show ?thesis using ca cb cc t1 t2 t3 one i m st'(1) r1 r2 by blast
qed


section \<open>The year rule and finalization\<close>


lemma merge_papers_year: "year (merge_papers L t i) = merge_year (year t) (year i)"
  by (simp add: merge_papers_def Let_def)

text \<open>
  Claim C7. The year rule of \<open>merge_papers\<close>: if the target has no valid year and the
  incoming record has one, the incoming year is taken; if both have valid years, the smaller
  one is kept; an incoming record without a valid year changes nothing, so for canonical
  records a target without a year always ends with the year of the incoming record. Merging
  a record of 2023 into a cluster of 2021 leaves 2021.
\<close>

theorem merge_papers_year_rule:
  "(coerce_year (year target) = None \<and> coerce_year (year incoming) = Some y
      \<longrightarrow> year (merge_papers L target incoming) = Some y)
   \<and> (coerce_year (year target) = Some x \<and> coerce_year (year incoming) = Some y
      \<longrightarrow> year (merge_papers L target incoming) = Some (min x y))
   \<and> (coerce_year (year incoming) = None
      \<longrightarrow> year (merge_papers L target incoming) = year target)
   \<and> (canonical_form L target \<and> canonical_form L incoming \<and> year target = None
      \<longrightarrow> year (merge_papers L target incoming) = year incoming)
   \<and> (year target = Some 2021 \<and> year incoming = Some 2023
      \<longrightarrow> year (merge_papers L target incoming) = Some 2021)"
proof (intro conjI impI)
  assume "coerce_year (year target) = None \<and> coerce_year (year incoming) = Some y"
  then show "year (merge_papers L target incoming) = Some y"
    by (simp add: merge_papers_year merge_year_def)
next
  assume "coerce_year (year target) = Some x \<and> coerce_year (year incoming) = Some y"
  then show "year (merge_papers L target incoming) = Some (min x y)"
    by (simp add: merge_papers_year merge_year_def)
next
  assume "coerce_year (year incoming) = None"
  then show "year (merge_papers L target incoming) = year target"
    by (simp add: merge_papers_year merge_year_def)
next
  assume "canonical_form L target \<and> canonical_form L incoming \<and> year target = None"
  then show "year (merge_papers L target incoming) = year incoming"
    by (cases "year incoming")
       (auto simp: merge_papers_year merge_year_def canonical_form_def coerce_year_def
          split: if_splits)
next
  assume "year target = Some 2021 \<and> year incoming = Some 2023"
  then show "year (merge_papers L target incoming) = Some 2021"
    by (simp add: merge_papers_year merge_year_def coerce_year_def)
qed

theorem merge_papers_year_rule_witness:
  "coerce_year (year (example_paper ''Deep Nets'' None None None)) = None
   \<and> coerce_year (year (example_paper ''Deep Nets'' None None (Some 2021))) = Some 2021
   \<and> coerce_year (year (example_paper ''Deep Nets, extended'' None None (Some 2023))) = Some 2023
   \<and> canonical_form plain_lib (example_paper ''Deep Nets'' None None None)
   \<and> canonical_form plain_lib (example_paper ''Deep Nets, extended'' None None (Some 2023))
   \<and> year (merge_papers plain_lib (example_paper ''Deep Nets'' None None None)
             (example_paper ''Deep Nets, extended'' None None (Some 2023))) = Some 2023
   \<and> year (merge_papers plain_lib (example_paper ''Deep Nets'' None None (Some 2021))
             (example_paper ''Deep Nets, extended'' None None (Some 2023))) = Some 2021
   \<and> year (merge_papers plain_lib (example_paper ''Deep Nets'' None None (Some 2021))
             (example_paper ''Deep Nets'' None None None)) = Some 2021"
proof -
  let ?n = "example_paper ''Deep Nets'' None None None"
  let ?t = "example_paper ''Deep Nets'' None None (Some 2021)"
  let ?i = "example_paper ''Deep Nets, extended'' None None (Some 2023)"
  have y: "year ?n = None" "year ?t = Some 2021" "year ?i = Some 2023"
    by (simp_all add: example_paper_def)
  have c: "coerce_year (year ?n) = None" "coerce_year (year ?t) = Some 2021"
    "coerce_year (year ?i) = Some 2023"
    by (simp_all add: y coerce_year_def)
  have f: "canonical_form plain_lib ?n" "canonical_form plain_lib ?i"
    by (simp_all add: canonical_form_def example_paper_def coerce_year_def)
  have 1: "year (merge_papers plain_lib ?n ?i) = Some 2023"
    using merge_papers_year_rule[of ?n ?i 2023 plain_lib] c by blast
  have 2: "year (merge_papers plain_lib ?t ?i) = Some 2021"
    using merge_papers_year_rule[of ?t ?i 2023 plain_lib 2021] c by simp
  have 3: "year (merge_papers plain_lib ?t ?n) = Some 2021"
    using merge_papers_year_rule[of ?t ?n _ plain_lib] c y by simp
  show ?thesis using c f 1 2 3 by blast
qed

lemma map_insort_key: "map f (insort_key f x xs) = insort (f x) (map f xs)"
  by (induction xs) auto

lemma map_sort_key: "map f (sort_key f xs) = sort (map f xs)"
  by (induction xs) (auto simp: map_insort_key)

lemma sorted_fst_of_sorted: "sorted (xs :: ('a::linorder \<times> 'b::linorder) list) \<Longrightarrow> sorted (map fst xs)"
  by (induction xs) (auto simp: less_eq_prod_def)

lemma finalize_source_ids:
  "sorted (map fst (source_ids (finalize L p)))"
  "set (source_ids (finalize L p)) = set (source_ids p)"
  "length (source_ids (finalize L p)) = length (source_ids p)"
  by (simp_all add: finalize_def sorted_fst_of_sorted)

lemma finalize_paper_id:
  "paper_id (finalize L p) =
     (if truthy (doi p) then ''doi:'' @ or_empty (doi p)
      else if truthy (arxiv_id p) then ''arxiv:'' @ or_empty (arxiv_id p)
      else ''title:'' @ take 16 (sha1_hexdigest L (or_empty (title_norm p))))"
  by (simp add: finalize_def)

text \<open>
  Claim C4. Finalization: \<open>deduplicate_papers\<close> returns, and its catalog is the stored
  clusters by strictly ascending cluster id, each written out by \<open>finalize\<close>. A written
  cluster has the identifier \<^verbatim>\<open>doi:\<close> followed by its DOI if it has one, else \<^verbatim>\<open>arxiv:\<close>
  followed by its arXiv id if it has one, else \<^verbatim>\<open>title:\<close> followed by the first 16
  characters of the SHA-1 digest of its normalized title (so two clusters without
  identifiers and with the same normalized title get the same id); its \<open>source_ids\<close> are
  the same entries sorted by key.
\<close>

theorem finalization_names_and_orders_clusters:
  "(\<exists>st. resolve_all L initial_resolver
            (List.map_filter (canonicalize_raw_paper L) raw_papers) = Inr st
        \<and> deduplicate_papers L raw_papers
            = Inr (map (\<lambda>(record_id, p). finalize L p) (sort_key fst (records st)))
        \<and> sorted_wrt (<) (map fst (sort_key fst (records st)))
        \<and> set (sort_key fst (records st)) = set (records st))
   \<and> (\<forall>p. (truthy (doi p) \<longrightarrow> paper_id (finalize L p) = ''doi:'' @ or_empty (doi p))
          \<and> (\<not> truthy (doi p) \<and> truthy (arxiv_id p)
               \<longrightarrow> paper_id (finalize L p) = ''arxiv:'' @ or_empty (arxiv_id p))
          \<and> (\<not> truthy (doi p) \<and> \<not> truthy (arxiv_id p)
               \<longrightarrow> paper_id (finalize L p)
                     = ''title:'' @ take 16 (sha1_hexdigest L (or_empty (title_norm p))))
          \<and> doi (finalize L p) = doi p \<and> arxiv_id (finalize L p) = arxiv_id p
          \<and> sorted (map fst (source_ids (finalize L p)))
          \<and> set (source_ids (finalize L p)) = set (source_ids p)
          \<and> length (source_ids (finalize L p)) = length (source_ids p))
   \<and> (\<forall>p q. \<not> truthy (doi p) \<and> \<not> truthy (arxiv_id p) \<and> \<not> truthy (doi q)
            \<and> \<not> truthy (arxiv_id q) \<and> title_norm p = title_norm q
          \<longrightarrow> paper_id (finalize L p) = paper_id (finalize L q))"
proof (intro conjI allI impI)
  from resolve_all_inv[OF initial_resolver_inv] obtain st where st:
    "resolve_all L initial_resolver (List.map_filter (canonicalize_raw_paper L) raw_papers)
       = Inr st" "resolver_inv st" by blast
  have d: "distinct (map fst (records st))" using st(2) by (simp add: resolver_inv_def)
  have "sorted (map fst (sort_key fst (records st)))" by (rule sorted_sort_key)
  moreover have "distinct (map fst (sort_key fst (records st)))"
    using d by (simp add: map_sort_key)
  ultimately have s: "sorted_wrt (<) (map fst (sort_key fst (records st)))"
    by (simp add: strict_sorted_iff)
  have "deduplicate_papers L raw_papers
            = Inr (map (\<lambda>(record_id, p). finalize L p) (sort_key fst (records st)))"
    using st(1) by (simp add: deduplicate_papers_def emit_def)
  with st(1) s show "\<exists>st. resolve_all L initial_resolver
            (List.map_filter (canonicalize_raw_paper L) raw_papers) = Inr st
        \<and> deduplicate_papers L raw_papers
            = Inr (map (\<lambda>(record_id, p). finalize L p) (sort_key fst (records st)))
        \<and> sorted_wrt (<) (map fst (sort_key fst (records st)))
        \<and> set (sort_key fst (records st)) = set (records st)" by auto
qed (simp_all add: finalize_paper_id finalize_ids finalize_source_ids)



theorem finalization_names_and_orders_clusters_witness:
  "deduplicate_papers plain_lib
     [example_raw ''Deep Nets'' (Some ''10.1/ab'') None None,
      example_raw ''Wide Nets!'' None (Some ''2301.00001'') None]
     = Inr [finalize plain_lib (example_paper ''Deep Nets'' (Some ''10.1/ab'') None None),
            finalize plain_lib (example_paper ''Wide Nets!'' None (Some ''2301.00001'') None)]
   \<and> truthy (doi (example_paper ''Deep Nets'' (Some ''10.1/ab'') None None))
   \<and> paper_id (finalize plain_lib (example_paper ''Deep Nets'' (Some ''10.1/ab'') None None))
       = ''doi:10.1/ab''
   \<and> \<not> truthy (doi (example_paper ''Wide Nets!'' None (Some ''2301.00001'') None))
   \<and> truthy (arxiv_id (example_paper ''Wide Nets!'' None (Some ''2301.00001'') None))
   \<and> paper_id (finalize plain_lib (example_paper ''Wide Nets!'' None (Some ''2301.00001'') None))
       = ''arxiv:2301.00001''
   \<and> \<not> truthy (doi (example_paper ''Nets'' None None None))
   \<and> \<not> truthy (arxiv_id (example_paper ''Nets'' None None None))
   \<and> paper_id (finalize plain_lib (example_paper ''Nets'' None None None))
       = ''title:'' @ take 16 (sha1_hexdigest plain_lib ''nets'')
   \<and> title_norm (example_paper ''Nets'' None None None)
       = title_norm (example_paper ''NETS!'' None None (Some 2020))
   \<and> paper_id (finalize plain_lib (example_paper ''Nets'' None None None))
       = paper_id (finalize plain_lib (example_paper ''NETS!'' None None (Some 2020)))"
proof -
  let ?a = "example_paper ''Deep Nets'' (Some ''10.1/ab'') None None"
  let ?b = "example_paper ''Wide Nets!'' None (Some ''2301.00001'') None"
  let ?t = "example_paper ''Nets'' None None None"
  let ?u = "example_paper ''NETS!'' None None (Some 2020)"
  let ?raws = "[example_raw ''Deep Nets'' (Some ''10.1/ab'') None None,
      example_raw ''Wide Nets!'' None (Some ''2301.00001'') None]"
  note fin = finalization_names_and_orders_clusters[of plain_lib ?raws]
  have run: "resolve_all plain_lib initial_resolver
      (List.map_filter (canonicalize_raw_paper plain_lib) ?raws) = Inr example_state"
    by code_simp
  have srt: "sort_key fst (records example_state) = [(1, ?a), (2, ?b)]"
    by (simp add: example_state_def)
  from fin run have out: "deduplicate_papers plain_lib ?raws
      = Inr (map (\<lambda>(record_id, p). finalize plain_lib p) (sort_key fst (records example_state)))"
    by auto
  have o: "deduplicate_papers plain_lib ?raws = Inr [finalize plain_lib ?a, finalize plain_lib ?b]"
    unfolding out srt by simp
  have f: "truthy (doi ?a)" "\<not> truthy (doi ?b)" "truthy (arxiv_id ?b)"
    "\<not> truthy (doi ?t)" "\<not> truthy (arxiv_id ?t)" "\<not> truthy (doi ?u)" "\<not> truthy (arxiv_id ?u)"
    by (simp_all add: example_paper_def truthy_def)
  have tn: "title_norm ?t = Some ''nets''" "title_norm ?t = title_norm ?u" by code_simp+
  have v: "or_empty (doi ?a) = ''10.1/ab''" "or_empty (arxiv_id ?b) = ''2301.00001''"
    by (simp_all add: example_paper_def or_empty_def)
  have 1: "paper_id (finalize plain_lib ?a) = ''doi:10.1/ab''"
    using fin f(1) v(1) by simp
  have 2: "paper_id (finalize plain_lib ?b) = ''arxiv:2301.00001''"
    using fin f(2,3) v(2) by simp
  have 3: "paper_id (finalize plain_lib ?t) = ''title:'' @ take 16 (sha1_hexdigest plain_lib ''nets'')"
    using fin f(4,5) tn(1) by (simp add: or_empty_def)
  have 4: "paper_id (finalize plain_lib ?t) = paper_id (finalize plain_lib ?u)"
    using fin f(4,5,6,7) tn(2) by blast
  show ?thesis using o f tn(2) 1 2 3 4 by blast
qed


section \<open>The fallback of the arXiv normalization\<close>

lemma last_dropWhile_ne: "dropWhile P xs \<noteq> [] \<Longrightarrow> last (dropWhile P xs) = last xs"
  by (induction xs) (auto split: if_splits)

lemma strip_ends:
  "strip s \<noteq> [] \<Longrightarrow> \<not> is_space (hd (strip s)) \<and> \<not> is_space (last (strip s))"
proof -
  assume ne: "strip s \<noteq> []"
  let ?t = "dropWhile is_space s"
  let ?u = "dropWhile is_space (rev ?t)"
  have su: "strip s = rev ?u" by (simp add: strip_def)
  with ne have une: "?u \<noteq> []" by simp
  then have hu: "\<not> is_space (hd ?u)" by (rule hd_dropWhile)
  have tne: "?t \<noteq> []"
  proof
    assume a: "?t = []"
    have "?u = []" unfolding a by simp
    with une show False by blast
  qed
  then have ht: "\<not> is_space (hd ?t)" by (rule hd_dropWhile)
  have "last ?u = last (rev ?t)" using une by (rule last_dropWhile_ne)
  then have lu: "last ?u = hd ?t" using tne by (simp add: last_rev)
  have "hd (strip s) = last ?u" using une by (simp add: su hd_rev)
  moreover have "last (strip s) = hd ?u" using une by (simp add: su last_rev)
  ultimately show ?thesis using hu ht lu by simp
qed

lemma strip_strip: "strip (strip s) = strip s"
proof (cases "strip s = []")
  case True
  have "strip [] = []" by (simp add: strip_def)
  with True show ?thesis by simp
next
  case False
  with strip_ends[OF False] show ?thesis by (simp add: strip_id)
qed

lemma arxiv_candidate_stripped: "strip (arxiv_candidate L raw) = arxiv_candidate L raw"
  by (simp add: arxiv_candidate_def Let_def strip_strip)

text \<open>
  Claim C10, as amended. When the cleaned candidate (the input stripped, unquoted, with
  every occurrence of \<^verbatim>\<open>.pdf\<close> removed and cut at the first \<^verbatim>\<open>?\<close> and \<^verbatim>\<open>#\<close>) is not empty
  and none of the four arXiv patterns is found in it, \<open>normalize_arxiv_id\<close> takes the
  candidate itself, lower-cases it and removes a trailing version suffix; it returns that
  text unless it is empty, and \<open>None\<close> if it is empty.
\<close>

theorem normalize_arxiv_id_fallback:
  "raw \<noteq> [] \<and> arxiv_candidate L raw \<noteq> []
     \<and> first_match ARXIV_PATTERNS (arxiv_candidate L raw) = None
   \<longrightarrow> normalize_arxiv_id L (Some raw)
         = (if strip_version (lower (arxiv_candidate L raw)) = [] then None
            else Some (strip_version (lower (arxiv_candidate L raw))))"
  by (simp add: normalize_arxiv_id_def Let_def arxiv_candidate_stripped)

theorem normalize_arxiv_id_fallback_witness:
  "''Hello World'' \<noteq> [] \<and> arxiv_candidate plain_lib ''Hello World'' \<noteq> []
   \<and> first_match ARXIV_PATTERNS (arxiv_candidate plain_lib ''Hello World'') = None
   \<and> strip_version (lower (arxiv_candidate plain_lib ''Hello World'')) = ''hello world''
   \<and> normalize_arxiv_id plain_lib (Some ''Hello World'') = Some ''hello world''"
proof -
  have 1: "arxiv_candidate plain_lib ''Hello World'' \<noteq> []" by code_simp
  have 2: "first_match ARXIV_PATTERNS (arxiv_candidate plain_lib ''Hello World'') = None"
    by code_simp
  have 3: "strip_version (lower (arxiv_candidate plain_lib ''Hello World'')) = ''hello world''"
    by code_simp
  from normalize_arxiv_id_fallback[of "''Hello World''" plain_lib] 1 2 3
  have "normalize_arxiv_id plain_lib (Some ''Hello World'') = Some ''hello world''" by simp
  with 1 2 3 show ?thesis by simp
qed

theorem normalize_arxiv_id_fallback_counterexample:
  "''v1'' \<noteq> [] \<and> arxiv_candidate plain_lib ''v1'' = ''v1''
   \<and> first_match ARXIV_PATTERNS (arxiv_candidate plain_lib ''v1'') = None
   \<and> normalize_arxiv_id plain_lib (Some ''v1'') = None"
  by code_simp


section \<open>The venue filter\<close>


lemma normalize_venue_plain:
  "lib_plain L \<Longrightarrow> is_plain s \<Longrightarrow> normalize_venue L s = normalize_venue plain_lib s"
  by (simp add: normalize_venue_def lib_plain_def plain_lib_def)

lemma aliases_plain:
  "\<forall>(canonical_name, aliases) \<in> set CANONICAL_VENUE_ALIAS_GROUPS. \<forall>alias \<in> set aliases. is_plain alias"
  by code_simp

lemma fold_cong_set: "(\<And>x a. x \<in> set xs \<Longrightarrow> f x a = g x a) \<Longrightarrow> fold f xs a = fold g xs a"
  by (induction xs arbitrary: a) auto

lemma alias_map_plain:
  assumes "lib_plain L"
  shows "CANONICAL_VENUE_ALIAS_MAP L = CANONICAL_VENUE_ALIAS_MAP plain_lib"
  unfolding CANONICAL_VENUE_ALIAS_MAP_def build_canonical_venue_alias_map_def
proof (rule fold_cong_set)
  fix x :: "string \<times> string list" and a
  assume x: "x \<in> set CANONICAL_VENUE_ALIAS_GROUPS"
  obtain n als where xn: "x = (n, als)" by (cases x)
  have "fold (\<lambda>alias alias_map.
                     let normalized = normalize_venue L alias
                     in if normalized \<noteq> [] then AList.update normalized n alias_map
                        else alias_map) als a
      = fold (\<lambda>alias alias_map.
                     let normalized = normalize_venue plain_lib alias
                     in if normalized \<noteq> [] then AList.update normalized n alias_map
                        else alias_map) als a"
  proof (rule fold_cong_set)
    fix al m
    assume "al \<in> set als"
    with x xn aliases_plain have "is_plain al" by blast
    with assms show "(let normalized = normalize_venue L al
                     in if normalized \<noteq> [] then AList.update normalized n m else m)
        = (let normalized = normalize_venue plain_lib al
                     in if normalized \<noteq> [] then AList.update normalized n m else m)"
      by (simp add: normalize_venue_plain)
  qed
  then show "(case x of (canonical_name, aliases) \<Rightarrow> \<lambda>alias_map.
             fold (\<lambda>alias alias_map.
                     let normalized = normalize_venue L alias
                     in if normalized \<noteq> [] then AList.update normalized canonical_name alias_map
                        else alias_map)
                  aliases alias_map) a
     = (case x of (canonical_name, aliases) \<Rightarrow> \<lambda>alias_map.
             fold (\<lambda>alias alias_map.
                     let normalized = normalize_venue plain_lib alias
                     in if normalized \<noteq> [] then AList.update normalized canonical_name alias_map
                        else alias_map)
                  aliases alias_map) a"
    by (simp add: xn)
qed

lemma requested_terms_plain:
  assumes "lib_plain L"
  shows "normalize_requested_venue_terms L [''ieee sp'']
     = [''__canonical_venue__:ieee-sp'', ''ieee symposium on security and privacy'',
        ''ieee security and privacy'', ''symposium on security and privacy'', ''oakland'']"
proof -
  have p: "is_plain ''ieee sp''" by code_simp
  have e: "\<And>t. expand_canonical_venue_alias L t = expand_canonical_venue_alias plain_lib t"
    by (simp add: expand_canonical_venue_alias_def alias_map_plain[OF assms])
  have "normalize_requested_venue_terms L [''ieee sp'']
      = normalize_requested_venue_terms plain_lib [''ieee sp'']"
    by (simp add: normalize_requested_venue_terms_def normalize_venue_plain[OF assms p] e Let_def)
  also have "\<dots> = [''__canonical_venue__:ieee-sp'', ''ieee symposium on security and privacy'',
        ''ieee security and privacy'', ''symposium on security and privacy'', ''oakland'']"
    by code_simp
  finally show ?thesis .
qed

lemma passes_venue_only:
  "paper_passes_filters L p terms None
     \<longleftrightarrow> terms = []
         \<or> (normalize_venue L (or_empty (raw_venue p)) \<noteq> []
            \<and> (\<exists>term \<in> set terms.
                  venue_term_matches (normalize_venue L (or_empty (raw_venue p)))
                    (set (split_ws (normalize_venue L (or_empty (raw_venue p))))) term))"
  by (auto simp: paper_passes_filters_def Let_def list_ex_iff)

lemma sp_venue:
  "normalize_venue plain_lib ''2022 IEEE Symposium on Security and Privacy (SP)''
     = ''2022 ieee symposium on security and privacy sp''"
  "is_plain ''2022 IEEE Symposium on Security and Privacy (SP)''"
  "normalize_venue plain_lib ''ACM CCS'' = ''acm ccs''"
  "is_plain ''ACM CCS''"
  by code_simp+

lemma sp_matches:
  "list_ex (venue_term_matches ''2022 ieee symposium on security and privacy sp''
         (set (split_ws ''2022 ieee symposium on security and privacy sp'')))
     [''__canonical_venue__:ieee-sp'', ''ieee symposium on security and privacy'',
        ''ieee security and privacy'', ''symposium on security and privacy'', ''oakland'']"
  by code_simp

lemma ccs_no_match:
  "\<not> list_ex (venue_term_matches ''acm ccs'' (set (split_ws ''acm ccs'')))
     [''__canonical_venue__:ieee-sp'', ''ieee symposium on security and privacy'',
        ''ieee security and privacy'', ''symposium on security and privacy'', ''oakland'']"
  by code_simp

lemma startswith_append_same: "startswith p (p @ s)"
  by (induction p) auto

lemma marker_parses: "parse_canonical_venue_marker (canonical_venue_marker name) = Some name"
  by (simp add: parse_canonical_venue_marker_def canonical_venue_marker_def startswith_append_same)


text \<open>
  Claim C9, as amended. A marker term matches a record iff the token set of its venue
  contains all tokens of at least one token-rule group registered for that canonical venue;
  any other term matches iff it is a substring of the normalized venue or the normalized
  venue is a substring of it. A record passes the venue filter iff no filter terms were
  requested, or its normalized venue is not empty and at least one requested term matches.
  The requested term \<^verbatim>\<open>ieee sp\<close> lets a record with the venue
  \<^verbatim>\<open>2022 IEEE Symposium on Security and Privacy (SP)\<close> pass and not one with \<^verbatim>\<open>ACM CCS\<close>.
\<close>

theorem venue_filter_rule:
  "(venue_term_matches v tokens (canonical_venue_marker name)
      \<longleftrightarrow> (\<exists>token_group \<in> set (case map_of CANONICAL_VENUE_TOKEN_RULES name of
                                     None \<Rightarrow> [] | Some rules \<Rightarrow> rules).
             set token_group \<subseteq> tokens))
   \<and> (\<not> startswith CANONICAL_VENUE_MARKER_PREFIX term
      \<longrightarrow> (venue_term_matches v tokens term
            \<longleftrightarrow> contains term v \<or> contains v term))
   \<and> (paper_passes_filters L p terms None
      \<longleftrightarrow> terms = []
          \<or> (normalize_venue L (or_empty (raw_venue p)) \<noteq> []
             \<and> (\<exists>term \<in> set terms.
                   venue_term_matches (normalize_venue L (or_empty (raw_venue p)))
                     (set (split_ws (normalize_venue L (or_empty (raw_venue p))))) term)))
   \<and> (lib_plain L \<and> raw_venue q = Some ''2022 IEEE Symposium on Security and Privacy (SP)''
      \<longrightarrow> paper_passes_filters L q (normalize_requested_venue_terms L [''ieee sp'']) None)
   \<and> (lib_plain L \<and> raw_venue q = Some ''ACM CCS''
      \<longrightarrow> \<not> paper_passes_filters L q (normalize_requested_venue_terms L [''ieee sp'']) None)"
proof (intro conjI impI)
  show "venue_term_matches v tokens (canonical_venue_marker name)
      \<longleftrightarrow> (\<exists>token_group \<in> set (case map_of CANONICAL_VENUE_TOKEN_RULES name of
                                     None \<Rightarrow> [] | Some rules \<Rightarrow> rules).
             set token_group \<subseteq> tokens)"
    by (auto simp: venue_term_matches_def marker_parses venue_matches_canonical_alias_def
        list_ex_iff list_all_iff)
next
  assume "\<not> startswith CANONICAL_VENUE_MARKER_PREFIX term"
  then show "venue_term_matches v tokens term
            \<longleftrightarrow> contains term v \<or> contains v term"
    by (simp add: venue_term_matches_def parse_canonical_venue_marker_def)
next
  show "paper_passes_filters L p terms None
      \<longleftrightarrow> terms = []
          \<or> (normalize_venue L (or_empty (raw_venue p)) \<noteq> []
             \<and> (\<exists>term \<in> set terms.
                   venue_term_matches (normalize_venue L (or_empty (raw_venue p)))
                     (set (split_ws (normalize_venue L (or_empty (raw_venue p))))) term))"
    by (rule passes_venue_only)
next
  assume h: "lib_plain L \<and> raw_venue q = Some ''2022 IEEE Symposium on Security and Privacy (SP)''"
  then have nv: "normalize_venue L (or_empty (raw_venue q))
      = ''2022 ieee symposium on security and privacy sp''"
    using normalize_venue_plain[of L "''2022 IEEE Symposium on Security and Privacy (SP)''"]
    by (simp add: or_empty_def sp_venue)
  show "paper_passes_filters L q (normalize_requested_venue_terms L [''ieee sp'']) None"
    using sp_matches conjunct1[OF h]
    by (simp add: paper_passes_filters_def Let_def nv requested_terms_plain del: list_ex_Cons_iff)
next
  assume h: "lib_plain L \<and> raw_venue q = Some ''ACM CCS''"
  then have nv: "normalize_venue L (or_empty (raw_venue q)) = ''acm ccs''"
    using normalize_venue_plain[of L "''ACM CCS''"]
    by (simp add: or_empty_def sp_venue)
  show "\<not> paper_passes_filters L q (normalize_requested_venue_terms L [''ieee sp'']) None"
    using ccs_no_match conjunct1[OF h]
    by (simp add: paper_passes_filters_def Let_def nv requested_terms_plain del: list_ex_Cons_iff)
qed

lemma plain_lib_plain: "lib_plain plain_lib"
  by (simp add: lib_plain_def plain_lib_def)

theorem venue_filter_rule_witness:
  "\<not> startswith CANONICAL_VENUE_MARKER_PREFIX ''security''
   \<and> (venue_term_matches ''usenix security'' {''usenix'', ''security''} ''security''
        \<longleftrightarrow> contains ''security'' ''usenix security'' \<or> contains ''usenix security'' ''security'')
   \<and> lib_plain plain_lib
   \<and> raw_venue ((example_raw ''Deep Nets'' None None None)
         \<lparr> raw_venue := Some ''2022 IEEE Symposium on Security and Privacy (SP)'' \<rparr>)
       = Some ''2022 IEEE Symposium on Security and Privacy (SP)''
   \<and> paper_passes_filters plain_lib
        ((example_raw ''Deep Nets'' None None None)
           \<lparr> raw_venue := Some ''2022 IEEE Symposium on Security and Privacy (SP)'' \<rparr>)
        (normalize_requested_venue_terms plain_lib [''ieee sp'']) None
   \<and> raw_venue ((example_raw ''Deep Nets'' None None None) \<lparr> raw_venue := Some ''ACM CCS'' \<rparr>)
       = Some ''ACM CCS''
   \<and> \<not> paper_passes_filters plain_lib
        ((example_raw ''Deep Nets'' None None None) \<lparr> raw_venue := Some ''ACM CCS'' \<rparr>)
        (normalize_requested_venue_terms plain_lib [''ieee sp'']) None"
proof -
  let ?sp = "(example_raw ''Deep Nets'' None None None)
         \<lparr> raw_venue := Some ''2022 IEEE Symposium on Security and Privacy (SP)'' \<rparr>"
  let ?ccs = "(example_raw ''Deep Nets'' None None None) \<lparr> raw_venue := Some ''ACM CCS'' \<rparr>"
  have 1: "\<not> startswith CANONICAL_VENUE_MARKER_PREFIX ''security''" by code_simp
  have 2: "raw_venue ?sp = Some ''2022 IEEE Symposium on Security and Privacy (SP)''" by simp
  have 3: "raw_venue ?ccs = Some ''ACM CCS''" by simp
  from venue_filter_rule[of "''usenix security''" "{''usenix'', ''security''}" _ "''security''"] 1
  have 4: "venue_term_matches ''usenix security'' {''usenix'', ''security''} ''security''
        \<longleftrightarrow> contains ''security'' ''usenix security'' \<or> contains ''usenix security'' ''security''"
    by blast
  from venue_filter_rule[of _ _ _ _ plain_lib _ _ ?sp] plain_lib_plain 2
  have 5: "paper_passes_filters plain_lib ?sp (normalize_requested_venue_terms plain_lib [''ieee sp'']) None"
    by blast
  from venue_filter_rule[of _ _ _ _ plain_lib _ _ ?ccs] plain_lib_plain 3
  have 6: "\<not> paper_passes_filters plain_lib ?ccs (normalize_requested_venue_terms plain_lib [''ieee sp'']) None"
    by blast
  show ?thesis using 1 2 3 4 5 6 plain_lib_plain by blast
qed

theorem venue_filter_rule_counterexample:
  "[''neurips''] \<noteq> []
   \<and> venue_term_matches
        (normalize_venue plain_lib (or_empty (raw_venue (example_raw ''Deep Nets'' None None None))))
        (set (split_ws (normalize_venue plain_lib
                          (or_empty (raw_venue (example_raw ''Deep Nets'' None None None))))))
        ''neurips''
   \<and> \<not> paper_passes_filters plain_lib (example_raw ''Deep Nets'' None None None) [''neurips''] None"
  by code_simp


end
